theory Spec2Isabelle
  imports Main "HOL-Library.Word"
begin

unbundle bit_operations_syntax

section \<open>Data model\<close>

text \<open>
  The renderer of \<^verbatim>\<open>vg.hpp\<close> / \<^verbatim>\<open>vg.cpp\<close> orchestrates a graphics driver.  The model
  keeps the data the source computes with: 32-bit counts and extents are \<open>32 word\<close>
  (\<^verbatim>\<open>std::uint32_t\<close>, wrapping), object handles are 64-bit values whose zero is the null
  handle, the enumerations are datatypes, the structs are records and every
  \<^verbatim>\<open>std::vector\<close> is a list.
\<close>

type_synonym u32 = "32 word"
type_synonym byte = "8 word"
type_synonym handle = "64 word"

definition null_handle :: handle where
  "null_handle = 0"

definition UINT32_MAX :: u32 where
  "UINT32_MAX = 0xFFFFFFFF"

datatype PresentModeKHR =
  eImmediate | eMailbox | eFifo | eFifoRelaxed | eSharedDemandRefresh | eSharedContinuousRefresh

datatype PhysicalDeviceType = eOther | eIntegratedGpu | eDiscreteGpu | eVirtualGpu | eCpu

datatype Format = eUndefined | eR8G8B8A8Unorm | eR8G8B8A8Srgb | eB8G8R8A8Unorm | eB8G8R8A8Srgb

datatype ColorSpaceKHR = eVkColorspaceSrgbNonlinear | eDisplayP3NonlinearEXT | eExtendedSrgbLinearEXT

record Extent2D =
  width :: u32
  height :: u32

record SurfaceFormatKHR =
  format :: Format
  colorSpace :: ColorSpaceKHR

record SurfaceCapabilitiesKHR =
  minImageCount :: u32
  maxImageCount :: u32
  currentExtent :: Extent2D
  minImageExtent :: Extent2D
  maxImageExtent :: Extent2D
  currentTransform :: u32

text \<open>\<^verbatim>\<open>struct SurfaceDetails\<close> and \<^verbatim>\<open>struct RenderGroup\<close> of \<^verbatim>\<open>vg.hpp\<close>.\<close>

record SurfaceDetails =
  formats :: "SurfaceFormatKHR list"
  present_modes :: "PresentModeKHR list"
  caps :: SurfaceCapabilitiesKHR

record RenderGroup =
  dev :: handle
  qfam_idx :: nat
  surf_details :: SurfaceDetails

text \<open>
  What the driver answers about one queue family: its \<^verbatim>\<open>queueFlags\<close> and the answer of
  \<^verbatim>\<open>getSurfaceSupportKHR\<close> for its index and the renderer's surface.
\<close>

record QueueFamily =
  queueFlags :: u32
  surfaceSupport :: bool

definition eGraphics :: u32 where
  "eGraphics = 1"

text \<open>
  What the driver answers about one physical device: its handle, the three surface
  queries of \<^verbatim>\<open>getSurfaceDetails\<close>, \<^verbatim>\<open>getQueueFamilyProperties\<close> and the
  \<^verbatim>\<open>deviceType\<close> of \<^verbatim>\<open>getProperties\<close>.
\<close>

record PhysicalDevice =
  phys_handle :: handle
  details :: SurfaceDetails
  qfams :: "QueueFamily list"
  deviceType :: PhysicalDeviceType

datatype error =
    runtime_error string
  | library_exception
  | out_of_range string
  | undefined_clamp
  | division_by_zero

text \<open>
  The answers of the platform during construction: the enumerated adapters, the
  framebuffer size of \<^verbatim>\<open>glfwGetFramebufferSize\<close> (two C \<^verbatim>\<open>int\<close>s), the images the
  created swapchain holds, the files on disk, and the handles the driver hands out for
  each object it creates.
\<close>

record Platform =
  physical_devices :: "PhysicalDevice list"
  fb_width :: int
  fb_height :: int
  swapchain_images :: "handle list"
  files :: "(string \<times> byte list) list"
  new_image_view :: "handle \<Rightarrow> handle"
  new_framebuffer :: "handle \<Rightarrow> handle"
  new_command_buffer :: "nat \<Rightarrow> handle"
  new_semaphore :: "nat \<Rightarrow> handle"
  new_fence :: "nat \<Rightarrow> handle"

text \<open>The fields of \<^verbatim>\<open>vk::SwapchainCreateInfoKHR\<close> that \<^verbatim>\<open>createSwapchain\<close> computes.\<close>

record SwapchainCreateInfoKHR =
  sc_minImageCount :: u32
  sc_imageFormat :: Format
  sc_imageColorSpace :: ColorSpaceKHR
  sc_imageExtent :: Extent2D
  sc_preTransform :: u32
  sc_presentMode :: PresentModeKHR

text \<open>The commands \<^verbatim>\<open>recordCommandBuffers\<close> writes into a command buffer.\<close>

datatype Command =
    Begin
  | BeginRenderPass handle Extent2D
  | BindPipeline
  | Draw u32 u32 u32 u32
  | EndRenderPass
  | End

text \<open>
  The members of \<^verbatim>\<open>class Renderer\<close> the model follows.  \<open>r_format\<close> is the member
  \<^verbatim>\<open>format\<close>; \<open>swapchain\<close> stands for the swapchain handle by the parameters it was
  created with; \<open>recorded\<close> is the device-side content of each command buffer of
  \<open>cmd_bufs\<close>, position by position.
\<close>

record Renderer =
  frame_idx :: nat
  rend_group :: RenderGroup
  r_format :: SurfaceFormatKHR
  img_count :: u32
  extent :: Extent2D
  swapchain :: SwapchainCreateInfoKHR
  images :: "handle list"
  image_views :: "handle list"
  framebuffers :: "handle list"
  cmd_bufs :: "handle list"
  recorded :: "Command list list"
  image_available :: "handle list"
  render_finished :: "handle list"
  frame_inflight :: "handle list"
  image_inflight :: "handle list"

section \<open>Shader loading\<close>

text \<open>
  \<^verbatim>\<open>readFile\<close>: open the file at its end and throw when that fails; \<open>size\<close> is the
  position \<^verbatim>\<open>tellg\<close> reports there, the length of the file; \<open>buf\<close> is a zero-filled
  vector of that size, and \<^verbatim>\<open>read\<close> overwrites its first \<open>size\<close> bytes with the first
  \<open>size\<close> bytes of the file.  The file system is a list of paths with their contents.
\<close>

definition readFile :: "(string \<times> byte list) list \<Rightarrow> string \<Rightarrow> error + byte list" where
  "readFile fs file_name =
     (case map_of fs file_name of
        None \<Rightarrow> Inl (runtime_error (''failed to open file: '' @ file_name))
      | Some content \<Rightarrow>
          (let size = length content;
               buf = replicate size (0 :: byte)
           in Inr (take size content @ drop size buf)))"

text \<open>
  The head of \<^verbatim>\<open>createPipeline\<close>: both files are read, and each shader module is created
  from \<^verbatim>\<open>codeSize = size()\<close> and \<^verbatim>\<open>pCode = data()\<close> of the buffer read.
\<close>

record ShaderModuleCreateInfo =
  codeSize :: nat
  pCode :: "byte list"

definition shaderModuleInfo :: "byte list \<Rightarrow> ShaderModuleCreateInfo" where
  "shaderModuleInfo code = \<lparr>codeSize = length code, pCode = code\<rparr>"

definition createPipeline_shaders ::
  "(string \<times> byte list) list \<Rightarrow> error + (ShaderModuleCreateInfo \<times> ShaderModuleCreateInfo)" where
  "createPipeline_shaders fs =
     (case readFile fs ''shaders/shader.vert.spv'' of
        Inl e \<Rightarrow> Inl e
      | Inr vert_code \<Rightarrow>
          (case readFile fs ''shaders/shader.frag.spv'' of
             Inl e \<Rightarrow> Inl e
           | Inr frag_code \<Rightarrow> Inr (shaderModuleInfo vert_code, shaderModuleInfo frag_code)))"

section \<open>Adapter selection\<close>

definition graphics_and_present :: "QueueFamily \<Rightarrow> bool" where
  "graphics_and_present q = (queueFlags q AND eGraphics \<noteq> 0 \<and> surfaceSupport q)"

definition mkRenderGroup :: "PhysicalDevice \<Rightarrow> nat \<Rightarrow> RenderGroup" where
  "mkRenderGroup d i = \<lparr>dev = phys_handle d, qfam_idx = i, surf_details = details d\<rparr>"

text \<open>
  The inner loop of \<^verbatim>\<open>chooseRenderGroup\<close> over the queue families of one device, from
  index \<open>i\<close>.  The state is the member \<^verbatim>\<open>rend_group\<close> and the local \<^verbatim>\<open>valid_groups\<close>;
  the flag says that the function has executed its \<^verbatim>\<open>return\<close>.
\<close>

fun scan_qfams ::
  "PhysicalDevice \<Rightarrow> nat \<Rightarrow> QueueFamily list \<Rightarrow> RenderGroup \<times> RenderGroup list
     \<Rightarrow> bool \<times> RenderGroup \<times> RenderGroup list" where
  "scan_qfams d i [] (rg, valid_groups) = (False, rg, valid_groups)"
| "scan_qfams d i (q # qs) (rg, valid_groups) =
     (if graphics_and_present q then
        (let rg' = mkRenderGroup d i in
         if deviceType d = eDiscreteGpu then (True, rg', valid_groups)
         else scan_qfams d (i + 1) qs (rg', valid_groups @ [rg']))
      else scan_qfams d (i + 1) qs (rg, valid_groups))"

text \<open>The outer loop over the enumerated devices.\<close>

fun scan_devices ::
  "PhysicalDevice list \<Rightarrow> RenderGroup \<times> RenderGroup list
     \<Rightarrow> bool \<times> RenderGroup \<times> RenderGroup list" where
  "scan_devices [] st = (False, st)"
| "scan_devices (d # ds) st =
     (if formats (details d) = [] \<or> present_modes (details d) = [] then scan_devices ds st
      else (case scan_qfams d 0 (qfams d) st of
              (True, st') \<Rightarrow> (True, st')
            | (False, st') \<Rightarrow> scan_devices ds st'))"

text \<open>
  \<^verbatim>\<open>chooseRenderGroup\<close>: the renderer with the member \<^verbatim>\<open>rend_group\<close> as the
  function leaves it, or the exception it throws.
\<close>

definition chooseRenderGroup :: "PhysicalDevice list \<Rightarrow> Renderer \<Rightarrow> error + Renderer" where
  "chooseRenderGroup devs r =
     (case scan_devices devs (rend_group r, []) of
        (True, rg, valid_groups) \<Rightarrow> Inr (r\<lparr>rend_group := rg\<rparr>)
      | (False, rg, valid_groups) \<Rightarrow>
          (if valid_groups = [] then Inl (runtime_error ''no suitable device group found'')
           else Inr (r\<lparr>rend_group := valid_groups ! 0\<rparr>)))"

text \<open>
  The words of the selection policy.  A candidate is a device with non-empty format and
  present-mode lists and a queue family that supports both graphics and presentation;
  \<open>suitable_qfams\<close> are the indices of such families in ascending order, and the group
  recorded for a candidate is the one of its first such family.
\<close>

definition suitable_qfams :: "PhysicalDevice \<Rightarrow> nat list" where
  "suitable_qfams d = filter (\<lambda>i. graphics_and_present (qfams d ! i)) [0..<length (qfams d)]"

definition is_candidate :: "PhysicalDevice \<Rightarrow> bool" where
  "is_candidate d =
     (formats (details d) \<noteq> [] \<and> present_modes (details d) \<noteq> []
      \<and> (\<exists>q \<in> set (qfams d). graphics_and_present q))"

definition is_discrete :: "PhysicalDevice \<Rightarrow> bool" where
  "is_discrete d = (deviceType d = eDiscreteGpu)"

definition candidate_group :: "PhysicalDevice \<Rightarrow> RenderGroup" where
  "candidate_group d = mkRenderGroup d (hd (suitable_qfams d))"

text \<open>
  For the proofs: the suitable indices of a tail of the family list that starts at index
  \<open>i\<close>, and all the groups the scan pushes for one device that does not make it return.
\<close>

fun suitable_from :: "nat \<Rightarrow> QueueFamily list \<Rightarrow> nat list" where
  "suitable_from i [] = []"
| "suitable_from i (q # qs) =
     (if graphics_and_present q then i # suitable_from (i + 1) qs else suitable_from (i + 1) qs)"

definition groups_of :: "PhysicalDevice \<Rightarrow> RenderGroup list" where
  "groups_of d =
     (if formats (details d) = [] \<or> present_modes (details d) = [] then []
      else map (mkRenderGroup d) (suitable_qfams d))"

section \<open>Swapchain parameters\<close>

definition chooseSurfaceFormat :: "Renderer \<Rightarrow> error + Renderer" where
  "chooseSurfaceFormat r =
     (case find (\<lambda>fmt. format fmt = eB8G8R8A8Srgb \<and> colorSpace fmt = eVkColorspaceSrgbNonlinear)
             (formats (surf_details (rend_group r))) of
        Some fmt \<Rightarrow> Inr (r\<lparr>r_format := fmt\<rparr>)
      | None \<Rightarrow>
          (case formats (surf_details (rend_group r)) of
             [] \<Rightarrow> Inl (out_of_range ''formats'')
           | fmt # _ \<Rightarrow> Inr (r\<lparr>r_format := fmt\<rparr>)))"

definition chooseImageCount :: "Renderer \<Rightarrow> Renderer" where
  "chooseImageCount r =
     (let c = caps (surf_details (rend_group r));
          r1 = r\<lparr>img_count := minImageCount c + 1\<rparr>
      in if maxImageCount c \<noteq> 0 \<and> img_count r1 > maxImageCount c
         then r1\<lparr>img_count := maxImageCount c\<rparr>
         else r1)"

text \<open>
  \<^verbatim>\<open>std::clamp(v, lo, hi)\<close>: undefined when \<open>hi < lo\<close>; otherwise \<open>lo\<close> when \<open>v < lo\<close>,
  \<open>hi\<close> when \<open>hi < v\<close>, and \<open>v\<close> itself in between.
\<close>

definition clamp :: "u32 \<Rightarrow> u32 \<Rightarrow> u32 \<Rightarrow> error + u32" where
  "clamp v lo hi =
     (if hi < lo then Inl undefined_clamp
      else Inr (if v < lo then lo else if hi < v then hi else v))"

text \<open>
  \<^verbatim>\<open>chooseSwapExtent\<close>.  The two \<^verbatim>\<open>int\<close>s of the framebuffer size are converted with
  \<^verbatim>\<open>static_cast<std::uint32_t>\<close>, which is reduction modulo \<open>2^32\<close>.
\<close>

definition chooseSwapExtent :: "Renderer \<Rightarrow> int \<Rightarrow> int \<Rightarrow> error + Renderer" where
  "chooseSwapExtent r w h =
     (let c = caps (surf_details (rend_group r)) in
      if width (currentExtent c) \<noteq> UINT32_MAX then Inr (r\<lparr>extent := currentExtent c\<rparr>)
      else
        (case clamp (word_of_int w) (width (minImageExtent c)) (width (maxImageExtent c)) of
           Inl e \<Rightarrow> Inl e
         | Inr cw \<Rightarrow>
             (case clamp (word_of_int h) (height (minImageExtent c)) (height (maxImageExtent c)) of
                Inl e \<Rightarrow> Inl e
              | Inr ch \<Rightarrow> Inr (r\<lparr>extent := \<lparr>width = cw, height = ch\<rparr>\<rparr>))))"

text \<open>The loop of \<^verbatim>\<open>choosePresentMode\<close>, with the local \<^verbatim>\<open>ret\<close> as accumulator.\<close>

fun choosePresentMode_loop :: "PresentModeKHR \<Rightarrow> PresentModeKHR list \<Rightarrow> PresentModeKHR" where
  "choosePresentMode_loop ret [] = ret"
| "choosePresentMode_loop ret (present_mode # rest) =
     (if present_mode = eMailbox then eMailbox
      else if present_mode = eImmediate then choosePresentMode_loop present_mode rest
      else choosePresentMode_loop ret rest)"

definition choosePresentMode :: "Renderer \<Rightarrow> PresentModeKHR" where
  "choosePresentMode r = choosePresentMode_loop eFifo (present_modes (surf_details (rend_group r)))"

definition createSwapchain :: "Renderer \<Rightarrow> Renderer" where
  "createSwapchain r =
     r\<lparr>swapchain :=
         \<lparr>sc_minImageCount = img_count r,
          sc_imageFormat = format (r_format r),
          sc_imageColorSpace = colorSpace (r_format r),
          sc_imageExtent = extent r,
          sc_preTransform = currentTransform (caps (surf_details (rend_group r))),
          sc_presentMode = choosePresentMode r\<rparr>\<rparr>"

section \<open>Swapchain dependents, command buffers and synchronisation objects\<close>

text \<open>\<^verbatim>\<open>std::vector::resize\<close>: cut to \<open>n\<close> elements, or fill up with value-initialised ones.\<close>

definition resize :: "nat \<Rightarrow> 'a \<Rightarrow> 'a list \<Rightarrow> 'a list" where
  "resize n d xs = take n xs @ replicate (n - length xs) d"

definition createImageViews :: "Platform \<Rightarrow> Renderer \<Rightarrow> Renderer" where
  "createImageViews p r =
     (let r1 = r\<lparr>image_views := resize (length (images r)) null_handle (image_views r)\<rparr>
      in fold (\<lambda>i s. s\<lparr>image_views := (image_views s)[i := new_image_view p (images s ! i)]\<rparr>)
           [0..<length (images r1)] r1)"

definition createFramebuffers :: "Platform \<Rightarrow> Renderer \<Rightarrow> Renderer" where
  "createFramebuffers p r =
     (let r1 = r\<lparr>framebuffers := resize (length (image_views r)) null_handle (framebuffers r)\<rparr>
      in fold (\<lambda>i s. s\<lparr>framebuffers := (framebuffers s)[i := new_framebuffer p (image_views s ! i)]\<rparr>)
           [0..<length (image_views r1)] r1)"

text \<open>
  \<^verbatim>\<open>dev.allocateCommandBuffers\<close> with
  \<^verbatim>\<open>commandBufferCount = static_cast<std::uint32_t>(framebuffers.size())\<close>: the binding
  returns a vector of exactly that many buffers, all empty.
\<close>

definition allocateCommandBuffers :: "Platform \<Rightarrow> Renderer \<Rightarrow> Renderer" where
  "allocateCommandBuffers p r =
     (let commandBufferCount = unat (of_nat (length (framebuffers r)) :: u32)
      in r\<lparr>cmd_bufs := map (new_command_buffer p) [0..<commandBufferCount],
            recorded := replicate commandBufferCount []\<rparr>)"

text \<open>
  \<^verbatim>\<open>recordCommandBuffers\<close>: the body of the loop appends six commands to buffer \<open>i\<close>;
  the render pass of buffer \<open>i\<close> targets \<^verbatim>\<open>framebuffers[i]\<close>.  The loop runs over
  \<^verbatim>\<open>cmd_bufs.size()\<close>, which the constructor has made the (32-bit) size of
  \<^verbatim>\<open>framebuffers\<close>, so the index is within \<^verbatim>\<open>framebuffers\<close>.
\<close>

definition record_one :: "Renderer \<Rightarrow> nat \<Rightarrow> Command list" where
  "record_one r i =
     [Begin, BeginRenderPass (framebuffers r ! i) (extent r), BindPipeline, Draw 3 1 0 0,
      EndRenderPass, End]"

definition recordCommandBuffers :: "Renderer \<Rightarrow> Renderer" where
  "recordCommandBuffers r =
     fold (\<lambda>i s. s\<lparr>recorded := (recorded s)[i := recorded s ! i @ record_one s i]\<rparr>)
       [0..<length (cmd_bufs r)] r"

text \<open>
  \<^verbatim>\<open>createSyncPrimitives\<close>: four vectors of \<^verbatim>\<open>img_count\<close> elements; the loop creates
  two semaphores and one signalled fence per slot and leaves \<^verbatim>\<open>image_inflight\<close> at the
  null handles of \<^verbatim>\<open>resize\<close>.  The driver numbers the semaphores and the fences in
  the order of their creation.
\<close>

definition createSyncPrimitives :: "Platform \<Rightarrow> Renderer \<Rightarrow> Renderer" where
  "createSyncPrimitives p r =
     (let n = unat (img_count r);
          r1 = r\<lparr>image_available := resize n null_handle (image_available r),
                 render_finished := resize n null_handle (render_finished r),
                 frame_inflight := resize n null_handle (frame_inflight r),
                 image_inflight := resize n null_handle (image_inflight r)\<rparr>
      in fold (\<lambda>i s. s\<lparr>image_available := (image_available s)[i := new_semaphore p (2 * i)],
                         render_finished := (render_finished s)[i := new_semaphore p (2 * i + 1)],
                         frame_inflight := (frame_inflight s)[i := new_fence p i]\<rparr>)
           [0..<n] r1)"

text \<open>
  The constructor \<^verbatim>\<open>Renderer::Renderer\<close>.  \<open>r0\<close> is the object before the body runs:
  \<^verbatim>\<open>frame_idx\<close> is 0 by its initialiser, the vectors are empty, and the members without
  an initialiser hold whatever \<open>r0\<close> holds.  The driver calls that only create an object
  are taken to succeed.
\<close>

definition Renderer_new :: "Platform \<Rightarrow> Renderer \<Rightarrow> error + Renderer" where
  "Renderer_new p r0 =
     (let r = r0\<lparr>frame_idx := 0, images := [], image_views := [], framebuffers := [],
                  cmd_bufs := [], recorded := [], image_available := [], render_finished := [],
                  frame_inflight := [], image_inflight := []\<rparr>
      in case chooseRenderGroup (physical_devices p) r of
           Inl e \<Rightarrow> Inl e
         | Inr r \<Rightarrow>
        (case chooseSurfaceFormat r of
           Inl e \<Rightarrow> Inl e
         | Inr r \<Rightarrow>
        (case chooseSwapExtent (chooseImageCount r) (fb_width p) (fb_height p) of
           Inl e \<Rightarrow> Inl e
         | Inr r \<Rightarrow>
        (let r = createImageViews p ((createSwapchain r)\<lparr>images := swapchain_images p\<rparr>)
         in case createPipeline_shaders (files p) of
              Inl e \<Rightarrow> Inl e
            | Inr shaders \<Rightarrow>
                Inr (createSyncPrimitives p
                      (recordCommandBuffers
                        (allocateCommandBuffers p (createFramebuffers p r))))))))"

section \<open>The draw step\<close>

text \<open>
  A call into the driver either returns or throws (the binding turns error codes into
  exceptions).  \<open>DrawEnv\<close> holds the driver's answers to the calls of one \<^verbatim>\<open>draw()\<close>, in
  the order of the calls; \<open>acquire\<close> is the \<^verbatim>\<open>.value\<close> of \<^verbatim>\<open>acquireNextImageKHR\<close>.
\<close>

datatype Result = eSuccess | eNotReady | eTimeout | eSuboptimalKHR

datatype 'a call = Returns 'a | Throws

record DrawEnv =
  wait_frame :: "Result call"
  acquire :: "u32 call"
  wait_image :: "Result call"
  reset :: "unit call"
  submit :: "unit call"
  present :: "Result call"

text \<open>
  The driver calls \<^verbatim>\<open>draw()\<close> makes.  \<open>Submit w c s f\<close> submits command buffer \<open>c\<close>,
  waiting on semaphore \<open>w\<close>, signalling semaphore \<open>s\<close> and fence \<open>f\<close>;
  \<open>PresentKHR s i\<close> presents image \<open>i\<close> waiting on semaphore \<open>s\<close>.
\<close>

datatype Event =
    WaitForFences handle
  | AcquireNextImageKHR handle
  | ResetFences handle
  | Submit handle handle handle handle
  | PresentKHR handle u32

text \<open>
  The second half of \<^verbatim>\<open>draw()\<close>, from the \<^verbatim>\<open>SubmitInfo\<close> on; \<open>r\<close> already holds the
  updated \<^verbatim>\<open>image_inflight\<close>.
\<close>

definition draw_submit :: "Renderer \<Rightarrow> DrawEnv \<Rightarrow> u32 \<Rightarrow> Event list \<times> (error + Renderer)" where
  "draw_submit r env img =
     (let img_idx = unat img; fi = frame_idx r in
      if length (image_available r) \<le> fi then ([], Inl (out_of_range ''image_available''))
      else if length (cmd_bufs r) \<le> img_idx then ([], Inl (out_of_range ''cmd_bufs''))
      else if length (render_finished r) \<le> fi then ([], Inl (out_of_range ''render_finished''))
      else if length (frame_inflight r) \<le> fi then ([], Inl (out_of_range ''frame_inflight''))
      else
        (let ev1 = [ResetFences (frame_inflight r ! fi)] in
         if reset env = Throws then (ev1, Inl library_exception)
         else
           (let ev2 = ev1 @ [Submit (image_available r ! fi) (cmd_bufs r ! img_idx)
                               (render_finished r ! fi) (frame_inflight r ! fi)] in
            if submit env = Throws then (ev2, Inl library_exception)
            else
              (let ev3 = ev2 @ [PresentKHR (render_finished r ! fi) img] in
               case present env of
                 Throws \<Rightarrow> (ev3, Inl library_exception)
               | Returns res \<Rightarrow>
                   if res \<noteq> eSuccess then (ev3, Inl (runtime_error ''failed to Present''))
                   else if unat (img_count r) = 0 then (ev3, Inl division_by_zero)
                   else (ev3, Inr (r\<lparr>frame_idx :=
                                    ((fi + 1) mod 2 ^ 64) mod unat (img_count r)\<rparr>))))))"

text \<open>
  \<^verbatim>\<open>Renderer::draw\<close>: the driver calls made, and the renderer after the call or the
  exception thrown.  An index beyond the end of a vector is undefined behaviour in the
  source; the model reports it as \<open>out_of_range\<close> with the name of the vector.
  \<^verbatim>\<open>frame_idx\<close> is a \<^verbatim>\<open>size_t\<close>: the increment wraps at \<open>2^64\<close>.
\<close>

definition draw :: "Renderer \<Rightarrow> DrawEnv \<Rightarrow> Event list \<times> (error + Renderer)" where
  "draw r env =
     (let fi = frame_idx r in
      if length (frame_inflight r) \<le> fi then ([], Inl (out_of_range ''frame_inflight''))
      else
        (let ev1 = [WaitForFences (frame_inflight r ! fi)] in
         case wait_frame env of
           Throws \<Rightarrow> (ev1, Inl library_exception)
         | Returns res \<Rightarrow>
             if res \<noteq> eSuccess then (ev1, Inl (runtime_error ''wait failure or timeout''))
             else if length (image_available r) \<le> fi
               then (ev1, Inl (out_of_range ''image_available''))
             else
               (let ev2 = ev1 @ [AcquireNextImageKHR (image_available r ! fi)] in
                case acquire env of
                  Throws \<Rightarrow> (ev2, Inl library_exception)
                | Returns img \<Rightarrow>
                    (let img_idx = unat img in
                     if length (image_inflight r) \<le> img_idx
                       then (ev2, Inl (out_of_range ''image_inflight''))
                     else
                       (let second_wait = (image_inflight r ! img_idx \<noteq> null_handle);
                            ev3 = ev2 @ (if second_wait
                                         then [WaitForFences (image_inflight r ! img_idx)] else [])
                        in
                        if second_wait \<and> wait_image env = Throws
                          then (ev3, Inl library_exception)
                        else if second_wait \<and> wait_image env \<noteq> Returns eSuccess
                          then (ev3, Inl (runtime_error ''wait failure or timeout''))
                        else
                          (let r1 = r\<lparr>image_inflight :=
                                        (image_inflight r)[img_idx := frame_inflight r ! fi]\<rparr>;
                               (ev4, res) = draw_submit r1 env img
                           in (ev3 @ ev4, res)))))))"

text \<open>
  The frame loop of \<^verbatim>\<open>main\<close> (\<^verbatim>\<open>Window::run_continuous\<close>): one \<^verbatim>\<open>draw()\<close> per
  iteration, as many iterations as the window allows, stopped by the first exception.
\<close>

fun run_continuous :: "Renderer \<Rightarrow> DrawEnv list \<Rightarrow> error + Renderer" where
  "run_continuous r [] = Inr r"
| "run_continuous r (env # envs) =
     (case snd (draw r env) of
        Inl e \<Rightarrow> Inl e
      | Inr r' \<Rightarrow> run_continuous r' envs)"

text \<open>The number of fence waits among the driver calls of one \<^verbatim>\<open>draw()\<close>.\<close>

fun is_wait :: "Event \<Rightarrow> bool" where
  "is_wait (WaitForFences f) = True"
| "is_wait e = False"

definition fence_waits :: "Event list \<Rightarrow> nat" where
  "fence_waits evs = length (filter is_wait evs)"

section \<open>Abbreviations and example inputs\<close>

abbreviation supported_modes :: "Renderer \<Rightarrow> PresentModeKHR list" where
  "supported_modes r \<equiv> present_modes (surf_details (rend_group r))"

abbreviation r_caps :: "Renderer \<Rightarrow> SurfaceCapabilitiesKHR" where
  "r_caps r \<equiv> caps (surf_details (rend_group r))"

text \<open>
  The adapter of the end-to-end scenario: at least two images and no upper bound, one
  BGRA8 sRGB format, FIFO presentation only, a surface of 500 by 500.
\<close>

definition example_caps :: SurfaceCapabilitiesKHR where
  "example_caps =
     \<lparr>minImageCount = 2, maxImageCount = 0,
      currentExtent = \<lparr>width = 500, height = 500\<rparr>,
      minImageExtent = \<lparr>width = 1, height = 1\<rparr>,
      maxImageExtent = \<lparr>width = 1024, height = 768\<rparr>,
      currentTransform = 1\<rparr>"

definition example_details :: SurfaceDetails where
  "example_details =
     \<lparr>formats = [\<lparr>format = eB8G8R8A8Srgb, colorSpace = eVkColorspaceSrgbNonlinear\<rparr>],
      present_modes = [eFifo],
      caps = example_caps\<rparr>"

text \<open>A renderer object before its constructor has run, and one with a chosen adapter.\<close>

definition unconstructed :: Renderer where
  "unconstructed =
     \<lparr>frame_idx = 0,
      rend_group = \<lparr>dev = null_handle, qfam_idx = 0,
                    surf_details = \<lparr>formats = [], present_modes = [], caps = example_caps\<rparr>\<rparr>,
      r_format = \<lparr>format = eUndefined, colorSpace = eVkColorspaceSrgbNonlinear\<rparr>,
      img_count = 0,
      extent = \<lparr>width = 0, height = 0\<rparr>,
      swapchain = \<lparr>sc_minImageCount = 0, sc_imageFormat = eUndefined,
                   sc_imageColorSpace = eVkColorspaceSrgbNonlinear,
                   sc_imageExtent = \<lparr>width = 0, height = 0\<rparr>,
                   sc_preTransform = 0, sc_presentMode = eFifo\<rparr>,
      images = [], image_views = [], framebuffers = [], cmd_bufs = [], recorded = [],
      image_available = [], render_finished = [], frame_inflight = [], image_inflight = []\<rparr>"

definition renderer_on :: "SurfaceDetails \<Rightarrow> Renderer" where
  "renderer_on sd = unconstructed\<lparr>rend_group := \<lparr>dev = 1, qfam_idx = 0, surf_details = sd\<rparr>\<rparr>"

text \<open>
  A surface whose current extent has the width \<open>0xFFFFFFFF\<close>: with the height
  \<open>0xFFFFFFFF\<close> too (the sentinel), and with a height of 600.
\<close>

definition sentinel_details :: SurfaceDetails where
  "sentinel_details =
     example_details\<lparr>caps := example_caps\<lparr>currentExtent :=
        \<lparr>width = 0xFFFFFFFF, height = 0xFFFFFFFF\<rparr>\<rparr>\<rparr>"

definition half_sentinel_details :: SurfaceDetails where
  "half_sentinel_details =
     example_details\<lparr>caps := example_caps\<lparr>currentExtent :=
        \<lparr>width = 0xFFFFFFFF, height = 600\<rparr>\<rparr>\<rparr>"

text \<open>
  Two surfaces whose minimum image count is \<open>0xFFFFFFFF\<close>: one without an upper bound
  and one with at most five images.
\<close>

definition wrapping_details :: SurfaceDetails where
  "wrapping_details =
     example_details\<lparr>caps := example_caps\<lparr>minImageCount := 0xFFFFFFFF, maxImageCount := 0\<rparr>\<rparr>"

definition bounded_wrapping_details :: SurfaceDetails where
  "bounded_wrapping_details =
     example_details\<lparr>caps := example_caps\<lparr>minImageCount := 0xFFFFFFFF, maxImageCount := 5\<rparr>\<rparr>"

text \<open>
  Four adapters: an integrated GPU whose second queue family does graphics and
  presentation, a discrete GPU that cannot present to the surface, a discrete GPU that
  can, and a CPU device without surface formats.
\<close>

definition integrated_gpu :: PhysicalDevice where
  "integrated_gpu =
     \<lparr>phys_handle = 0x10, details = example_details,
      qfams = [\<lparr>queueFlags = 4, surfaceSupport = True\<rparr>,
               \<lparr>queueFlags = 7, surfaceSupport = True\<rparr>,
               \<lparr>queueFlags = 15, surfaceSupport = True\<rparr>],
      deviceType = eIntegratedGpu\<rparr>"

definition headless_gpu :: PhysicalDevice where
  "headless_gpu =
     \<lparr>phys_handle = 0x20, details = example_details,
      qfams = [\<lparr>queueFlags = 15, surfaceSupport = False\<rparr>],
      deviceType = eDiscreteGpu\<rparr>"

definition discrete_gpu :: PhysicalDevice where
  "discrete_gpu =
     \<lparr>phys_handle = 0x30, details = example_details\<lparr>present_modes := [eFifo, eMailbox]\<rparr>,
      qfams = [\<lparr>queueFlags = 15, surfaceSupport = True\<rparr>,
               \<lparr>queueFlags = 7, surfaceSupport = True\<rparr>],
      deviceType = eDiscreteGpu\<rparr>"

definition cpu_device :: PhysicalDevice where
  "cpu_device =
     \<lparr>phys_handle = 0x40, details = example_details\<lparr>formats := []\<rparr>,
      qfams = [\<lparr>queueFlags = 7, surfaceSupport = True\<rparr>],
      deviceType = eCpu\<rparr>"

text \<open>Shader files on disk: a vertex shader of five bytes and a fragment shader of four.\<close>

definition odd_files :: "(string \<times> byte list) list" where
  "odd_files =
     [(''shaders/shader.vert.spv'', [3, 2, 35, 7, 9]),
      (''shaders/shader.frag.spv'', [3, 2, 35, 7])]"

text \<open>
  A platform for the whole constructor: the CPU device and the integrated GPU, a
  framebuffer of 500 by 500, a swapchain that holds four images (one more than the
  three the renderer asks for), both shader files, and a driver that numbers its handles.
\<close>

definition example_platform :: Platform where
  "example_platform =
     \<lparr>physical_devices = [cpu_device, integrated_gpu],
      fb_width = 500, fb_height = 500,
      swapchain_images = [0x101, 0x102, 0x103, 0x104],
      files = [(''shaders/shader.vert.spv'', [3, 2, 35, 7, 0, 0, 1, 0]),
               (''shaders/shader.frag.spv'', [3, 2, 35, 7])],
      new_image_view = (\<lambda>image. image + 0x100),
      new_framebuffer = (\<lambda>view. view + 0x100),
      new_command_buffer = (\<lambda>i. 0x401 + of_nat i),
      new_semaphore = (\<lambda>i. 0x501 + of_nat i),
      new_fence = (\<lambda>i. 0x601 + of_nat i)\<rparr>"

definition example_commands :: "handle \<Rightarrow> Command list" where
  "example_commands fb =
     [Begin, BeginRenderPass fb \<lparr>width = 500, height = 500\<rparr>, BindPipeline, Draw 3 1 0 0,
      EndRenderPass, End]"

definition example_renderer :: Renderer where
  "example_renderer =
     \<lparr>frame_idx = 0,
      rend_group = \<lparr>dev = 0x10, qfam_idx = 1, surf_details = example_details\<rparr>,
      r_format = \<lparr>format = eB8G8R8A8Srgb, colorSpace = eVkColorspaceSrgbNonlinear\<rparr>,
      img_count = 3,
      extent = \<lparr>width = 500, height = 500\<rparr>,
      swapchain = \<lparr>sc_minImageCount = 3, sc_imageFormat = eB8G8R8A8Srgb,
                   sc_imageColorSpace = eVkColorspaceSrgbNonlinear,
                   sc_imageExtent = \<lparr>width = 500, height = 500\<rparr>,
                   sc_preTransform = 1, sc_presentMode = eFifo\<rparr>,
      images = [0x101, 0x102, 0x103, 0x104],
      image_views = [0x201, 0x202, 0x203, 0x204],
      framebuffers = [0x301, 0x302, 0x303, 0x304],
      cmd_bufs = [0x401, 0x402, 0x403, 0x404],
      recorded = [example_commands 0x301, example_commands 0x302, example_commands 0x303,
                  example_commands 0x304],
      image_available = [0x501, 0x503, 0x505],
      render_finished = [0x502, 0x504, 0x506],
      frame_inflight = [0x601, 0x602, 0x603],
      image_inflight = [0, 0, 0]\<rparr>"

text \<open>
  A \<^verbatim>\<open>draw()\<close> in which every driver call succeeds and image \<open>i\<close> is acquired, and
  the renderer after three such calls that acquired images 0, 1 and 2.
\<close>

definition acquiring :: "u32 \<Rightarrow> DrawEnv" where
  "acquiring i =
     \<lparr>wait_frame = Returns eSuccess, acquire = Returns i, wait_image = Returns eSuccess,
      reset = Returns (), submit = Returns (), present = Returns eSuccess\<rparr>"

definition steady_renderer :: Renderer where
  "steady_renderer = example_renderer\<lparr>image_inflight := [0x601, 0x602, 0x603]\<rparr>"

section \<open>Present mode\<close>

lemma choosePresentMode_loop_eq:
  "choosePresentMode_loop ret ms =
     (if eMailbox \<in> set ms then eMailbox
      else if eImmediate \<in> set ms then eImmediate else ret)"
  by (induction ms arbitrary: ret) auto

text \<open>
  Claim C3.  \<open>choosePresentMode\<close> returns mailbox when mailbox occurs anywhere in the
  supported list, otherwise immediate when immediate occurs anywhere, otherwise fifo; so
  two lists with the same elements, in whatever order, give the same mode.
\<close>

theorem choosePresentMode_preference:
  "choosePresentMode r =
     (if eMailbox \<in> set (supported_modes r) then eMailbox
      else if eImmediate \<in> set (supported_modes r) then eImmediate else eFifo)
   \<and> (set (supported_modes r) = set (supported_modes r')
        \<longrightarrow> choosePresentMode r = choosePresentMode r')"
  by (simp add: choosePresentMode_def choosePresentMode_loop_eq)

theorem choosePresentMode_preference_witness:
  "set (supported_modes (renderer_on (example_details\<lparr>present_modes := [eImmediate, eFifo, eMailbox]\<rparr>)))
     = set (supported_modes (renderer_on (example_details\<lparr>present_modes := [eFifo, eMailbox, eImmediate]\<rparr>)))
   \<and> choosePresentMode (renderer_on (example_details\<lparr>present_modes := [eImmediate, eFifo, eMailbox]\<rparr>))
     = choosePresentMode (renderer_on (example_details\<lparr>present_modes := [eFifo, eMailbox, eImmediate]\<rparr>))
   \<and> choosePresentMode (renderer_on (example_details\<lparr>present_modes := [eImmediate, eFifo, eMailbox]\<rparr>))
     = eMailbox
   \<and> choosePresentMode (renderer_on (example_details\<lparr>present_modes := [eImmediate, eFifo]\<rparr>))
     = eImmediate
   \<and> choosePresentMode (renderer_on (example_details\<lparr>present_modes := [eFifo]\<rparr>)) = eFifo"
  using choosePresentMode_preference
          [of "renderer_on (example_details\<lparr>present_modes := [eImmediate, eFifo, eMailbox]\<rparr>)"
              "renderer_on (example_details\<lparr>present_modes := [eFifo, eMailbox, eImmediate]\<rparr>)"]
        choosePresentMode_preference
          [of "renderer_on (example_details\<lparr>present_modes := [eImmediate, eFifo]\<rparr>)"]
        choosePresentMode_preference
          [of "renderer_on (example_details\<lparr>present_modes := [eFifo]\<rparr>)"]
  by (auto simp: renderer_on_def example_details_def)

section \<open>Image count\<close>

lemma unat_succ_u32: "unat (x :: u32) < 2 ^ 32 - 1 \<Longrightarrow> unat (x + 1) = unat x + 1"
  by (simp add: unat_word_ariths)

text \<open>
  Claim C4, as stated, fails: \<open>minImageCount + 1\<close> is computed in 32 bits.  On a
  snapshot with \<open>minImageCount = 0xFFFFFFFF\<close> the sum wraps to 0.  With
  \<open>maxImageCount = 0\<close> the count chosen is 0 and not \<open>minImageCount + 1 = 2^32\<close>; with
  \<open>maxImageCount = 5\<close>, which is not zero and less than \<open>minImageCount + 1\<close>, the count
  chosen is again 0 and not 5.
\<close>

theorem chooseImageCount_wrap_counterexample:
  "unat (minImageCount (r_caps (renderer_on wrapping_details))) = 4294967295
   \<and> maxImageCount (r_caps (renderer_on wrapping_details)) = 0
   \<and> unat (img_count (chooseImageCount (renderer_on wrapping_details))) = 0
   \<and> unat (img_count (chooseImageCount (renderer_on wrapping_details)))
     \<noteq> unat (minImageCount (r_caps (renderer_on wrapping_details))) + 1
   \<and> unat (minImageCount (r_caps (renderer_on bounded_wrapping_details))) = 4294967295
   \<and> unat (maxImageCount (r_caps (renderer_on bounded_wrapping_details))) = 5
   \<and> unat (img_count (chooseImageCount (renderer_on bounded_wrapping_details))) = 0
   \<and> unat (img_count (chooseImageCount (renderer_on bounded_wrapping_details)))
     \<noteq> min (unat (minImageCount (r_caps (renderer_on bounded_wrapping_details))) + 1)
           (unat (maxImageCount (r_caps (renderer_on bounded_wrapping_details))))"
  by (simp add: chooseImageCount_def renderer_on_def wrapping_details_def
      bounded_wrapping_details_def example_details_def example_caps_def Let_def)

text \<open>
  Claim C4, amended.  For every surface capability snapshot with
  \<open>minImageCount < 0xFFFFFFFF\<close>, \<open>chooseImageCount\<close> sets \<open>img_count\<close> to the number
  \<open>minImageCount + 1\<close> when \<open>maxImageCount\<close> is 0, and to the smaller of the numbers
  \<open>minImageCount + 1\<close> and \<open>maxImageCount\<close> otherwise; so it is \<open>maxImageCount\<close> itself
  when that is not zero and less than \<open>minImageCount + 1\<close>.
\<close>

theorem chooseImageCount_value:
  "unat (minImageCount (r_caps r)) < 2 ^ 32 - 1 \<longrightarrow>
     unat (img_count (chooseImageCount r)) =
       (if maxImageCount (r_caps r) = 0 then unat (minImageCount (r_caps r)) + 1
        else min (unat (minImageCount (r_caps r)) + 1) (unat (maxImageCount (r_caps r))))
     \<and> (maxImageCount (r_caps r) \<noteq> 0
          \<and> unat (maxImageCount (r_caps r)) < unat (minImageCount (r_caps r)) + 1 \<longrightarrow>
          img_count (chooseImageCount r) = maxImageCount (r_caps r))"
proof (intro impI)
  assume small: "unat (minImageCount (r_caps r)) < 2 ^ 32 - 1"
  have w: "img_count (chooseImageCount r) =
     (if maxImageCount (r_caps r) = 0 then minImageCount (r_caps r) + 1
      else min (minImageCount (r_caps r) + 1) (maxImageCount (r_caps r)))"
    by (auto simp: chooseImageCount_def Let_def min_def)
  have n: "unat (img_count (chooseImageCount r)) =
          (if maxImageCount (r_caps r) = 0 then unat (minImageCount (r_caps r)) + 1
           else min (unat (minImageCount (r_caps r)) + 1) (unat (maxImageCount (r_caps r))))"
    using unat_succ_u32 [OF small]
    by (auto simp: w min_def word_le_nat_alt)
  have m: "img_count (chooseImageCount r) = maxImageCount (r_caps r)"
    if "maxImageCount (r_caps r) \<noteq> 0
          \<and> unat (maxImageCount (r_caps r)) < unat (minImageCount (r_caps r)) + 1"
    using that unat_succ_u32 [OF small]
    by (auto simp: w min_def word_le_nat_alt)
  from n m
  show "unat (img_count (chooseImageCount r)) =
       (if maxImageCount (r_caps r) = 0 then unat (minImageCount (r_caps r)) + 1
        else min (unat (minImageCount (r_caps r)) + 1) (unat (maxImageCount (r_caps r))))
     \<and> (maxImageCount (r_caps r) \<noteq> 0
          \<and> unat (maxImageCount (r_caps r)) < unat (minImageCount (r_caps r)) + 1 \<longrightarrow>
          img_count (chooseImageCount r) = maxImageCount (r_caps r))"
    by blast
qed

theorem chooseImageCount_value_witness:
  "unat (minImageCount (r_caps (renderer_on example_details))) < 2 ^ 32 - 1
   \<and> maxImageCount (r_caps (renderer_on example_details)) = 0
   \<and> unat (img_count (chooseImageCount (renderer_on example_details))) = 3
   \<and> unat (minImageCount (r_caps (renderer_on (example_details\<lparr>caps := example_caps\<lparr>minImageCount := 4, maxImageCount := 3\<rparr>\<rparr>)))) < 2 ^ 32 - 1
   \<and> unat (maxImageCount (r_caps (renderer_on (example_details\<lparr>caps := example_caps\<lparr>minImageCount := 4, maxImageCount := 3\<rparr>\<rparr>)))) < 4 + 1
   \<and> img_count (chooseImageCount (renderer_on (example_details\<lparr>caps := example_caps\<lparr>minImageCount := 4, maxImageCount := 3\<rparr>\<rparr>))) = 3
   \<and> unat (img_count (chooseImageCount (renderer_on (example_details\<lparr>caps := example_caps\<lparr>minImageCount := 4, maxImageCount := 3\<rparr>\<rparr>)))) = 3"
  using chooseImageCount_value [of "renderer_on example_details"]
        chooseImageCount_value
          [of "renderer_on (example_details\<lparr>caps := example_caps\<lparr>minImageCount := 4, maxImageCount := 3\<rparr>\<rparr>)"]
  by (simp add: renderer_on_def example_details_def example_caps_def)

section \<open>Swap extent\<close>

lemma clamp_ok:
  "lo \<le> hi \<Longrightarrow> clamp v lo hi = Inr (max lo (min hi v))"
  by (auto simp: clamp_def max_def min_def)

lemma uint_max_min_u32:
  "uint (max lo (min hi (v :: u32))) = max (uint lo) (min (uint hi) (uint v))"
  by (auto simp: max_def min_def word_le_def)

lemma uint_word_of_int_u32: "0 \<le> w \<Longrightarrow> w < 2 ^ 32 \<Longrightarrow> uint (word_of_int w :: u32) = w"
  by (simp add: uint_word_of_int)

text \<open>
  Claim C5, as stated, fails: the source tests the width of the current extent only.
  A current extent of \<open>(0xFFFFFFFF, 600)\<close> is not the sentinel pair, yet the extent
  chosen is the clamped framebuffer size \<open>(800, 500)\<close> and not the current extent.
\<close>

theorem chooseSwapExtent_sentinel_counterexample:
  "currentExtent (r_caps (renderer_on half_sentinel_details))
     \<noteq> \<lparr>width = 0xFFFFFFFF, height = 0xFFFFFFFF\<rparr>
   \<and> chooseSwapExtent (renderer_on half_sentinel_details) 800 500
     = Inr ((renderer_on half_sentinel_details)\<lparr>extent := \<lparr>width = 800, height = 500\<rparr>\<rparr>)
   \<and> chooseSwapExtent (renderer_on half_sentinel_details) 800 500
     \<noteq> Inr ((renderer_on half_sentinel_details)
              \<lparr>extent := currentExtent (r_caps (renderer_on half_sentinel_details))\<rparr>)"
  by (simp add: chooseSwapExtent_def clamp_def renderer_on_def half_sentinel_details_def
      example_details_def example_caps_def unconstructed_def UINT32_MAX_def Let_def)

text \<open>
  Claim C5, amended.  When the width of the current extent is not \<open>0xFFFFFFFF\<close> the
  current extent is used verbatim.  When it is \<open>0xFFFFFFFF\<close> (whatever the height) and
  the minimum extent does not exceed the maximum extent, the extent is the framebuffer
  size, converted to 32 bits, clamped componentwise into \<open>[minImageExtent,
  maxImageExtent]\<close>; for a framebuffer size that is not negative this is the clamped
  size itself.
\<close>

theorem chooseSwapExtent_by_width:
  "(width (currentExtent (r_caps r)) \<noteq> UINT32_MAX \<longrightarrow>
      chooseSwapExtent r w h = Inr (r\<lparr>extent := currentExtent (r_caps r)\<rparr>))
   \<and> (width (currentExtent (r_caps r)) = UINT32_MAX
       \<and> width (minImageExtent (r_caps r)) \<le> width (maxImageExtent (r_caps r))
       \<and> height (minImageExtent (r_caps r)) \<le> height (maxImageExtent (r_caps r)) \<longrightarrow>
      (\<exists>e. chooseSwapExtent r w h = Inr (r\<lparr>extent := e\<rparr>)
         \<and> width e = max (width (minImageExtent (r_caps r)))
                         (min (width (maxImageExtent (r_caps r))) (word_of_int w))
         \<and> height e = max (height (minImageExtent (r_caps r)))
                          (min (height (maxImageExtent (r_caps r))) (word_of_int h))
         \<and> (0 \<le> w \<and> w < 2 ^ 32 \<longrightarrow>
              uint (width e) = max (uint (width (minImageExtent (r_caps r))))
                                   (min (uint (width (maxImageExtent (r_caps r)))) w))
         \<and> (0 \<le> h \<and> h < 2 ^ 32 \<longrightarrow>
              uint (height e) = max (uint (height (minImageExtent (r_caps r))))
                                    (min (uint (height (maxImageExtent (r_caps r)))) h))))"
proof (intro conjI impI)
  assume "width (currentExtent (r_caps r)) \<noteq> UINT32_MAX"
  then show "chooseSwapExtent r w h = Inr (r\<lparr>extent := currentExtent (r_caps r)\<rparr>)"
    by (simp add: chooseSwapExtent_def Let_def)
next
  assume a: "width (currentExtent (r_caps r)) = UINT32_MAX
       \<and> width (minImageExtent (r_caps r)) \<le> width (maxImageExtent (r_caps r))
       \<and> height (minImageExtent (r_caps r)) \<le> height (maxImageExtent (r_caps r))"
  let ?cw = "max (width (minImageExtent (r_caps r)))
                 (min (width (maxImageExtent (r_caps r))) (word_of_int w))"
  let ?ch = "max (height (minImageExtent (r_caps r)))
                 (min (height (maxImageExtent (r_caps r))) (word_of_int h))"
  have run: "chooseSwapExtent r w h = Inr (r\<lparr>extent := \<lparr>width = ?cw, height = ?ch\<rparr>\<rparr>)"
    using a by (simp add: chooseSwapExtent_def clamp_ok Let_def)
  have uw: "uint ?cw = max (uint (width (minImageExtent (r_caps r))))
                           (min (uint (width (maxImageExtent (r_caps r)))) w)"
    if "0 \<le> w \<and> w < 2 ^ 32"
    using that by (simp only: uint_max_min_u32 uint_word_of_int_u32)
  have uh: "uint ?ch = max (uint (height (minImageExtent (r_caps r))))
                           (min (uint (height (maxImageExtent (r_caps r)))) h)"
    if "0 \<le> h \<and> h < 2 ^ 32"
    using that by (simp only: uint_max_min_u32 uint_word_of_int_u32)
  show "\<exists>e. chooseSwapExtent r w h = Inr (r\<lparr>extent := e\<rparr>)
         \<and> width e = ?cw \<and> height e = ?ch
         \<and> (0 \<le> w \<and> w < 2 ^ 32 \<longrightarrow>
              uint (width e) = max (uint (width (minImageExtent (r_caps r))))
                                   (min (uint (width (maxImageExtent (r_caps r)))) w))
         \<and> (0 \<le> h \<and> h < 2 ^ 32 \<longrightarrow>
              uint (height e) = max (uint (height (minImageExtent (r_caps r))))
                                    (min (uint (height (maxImageExtent (r_caps r)))) h))"
    using run uw uh by (intro exI [of _ "\<lparr>width = ?cw, height = ?ch\<rparr>"]) simp
qed

theorem chooseSwapExtent_by_width_witness:
  "width (currentExtent (r_caps (renderer_on example_details))) \<noteq> UINT32_MAX
   \<and> chooseSwapExtent (renderer_on example_details) 800 600
     = Inr ((renderer_on example_details)\<lparr>extent := \<lparr>width = 500, height = 500\<rparr>\<rparr>)
   \<and> width (currentExtent (r_caps (renderer_on sentinel_details))) = UINT32_MAX
   \<and> chooseSwapExtent (renderer_on sentinel_details) 800 600
     = Inr ((renderer_on sentinel_details)\<lparr>extent := \<lparr>width = 800, height = 600\<rparr>\<rparr>)
   \<and> chooseSwapExtent (renderer_on sentinel_details) 2000 2000
     = Inr ((renderer_on sentinel_details)\<lparr>extent := \<lparr>width = 1024, height = 768\<rparr>\<rparr>)"
  using chooseSwapExtent_by_width [of "renderer_on example_details" 800 600]
        chooseSwapExtent_by_width [of "renderer_on sentinel_details" 800 600]
        chooseSwapExtent_by_width [of "renderer_on sentinel_details" 2000 2000]
  by (auto simp: renderer_on_def sentinel_details_def example_details_def example_caps_def
      unconstructed_def UINT32_MAX_def)

section \<open>Shader loading\<close>

lemma readFile_eq:
  "readFile fs name =
     (case map_of fs name of
        None \<Rightarrow> Inl (runtime_error (''failed to open file: '' @ name))
      | Some content \<Rightarrow> Inr content)"
  by (simp add: readFile_def split: option.splits)

text \<open>
  Claim C8, as stated, fails: the loader adds no padding.  A vertex shader file of five
  bytes is handed to shader-module creation as it is, with a code size of 5, which is
  not a multiple of 4.
\<close>

theorem readFile_padding_counterexample:
  "readFile odd_files ''shaders/shader.vert.spv'' = Inr [3, 2, 35, 7, 9]
   \<and> createPipeline_shaders odd_files
     = Inr (\<lparr>codeSize = 5, pCode = [3, 2, 35, 7, 9]\<rparr>, \<lparr>codeSize = 4, pCode = [3, 2, 35, 7]\<rparr>)
   \<and> \<not> 4 dvd codeSize (shaderModuleInfo [3, 2, 35, 7, 9])"
proof -
  have size: "codeSize (shaderModuleInfo [3, 2, 35, 7, 9]) = 5"
    by (simp add: shaderModuleInfo_def)
  have odd: "\<not> 4 dvd (5 :: nat)"
    by simp
  have loaded: "readFile odd_files ''shaders/shader.vert.spv'' = Inr [3, 2, 35, 7, 9]
    \<and> createPipeline_shaders odd_files
      = Inr (\<lparr>codeSize = 5, pCode = [3, 2, 35, 7, 9]\<rparr>, \<lparr>codeSize = 4, pCode = [3, 2, 35, 7]\<rparr>)"
    by (simp add: createPipeline_shaders_def readFile_eq odd_files_def shaderModuleInfo_def)
  from loaded odd show ?thesis
    by (simp only: size) simp
qed

text \<open>
  Claim C8, amended.  \<open>readFile\<close> returns exactly the bytes of the file, nothing added,
  and throws when the file cannot be opened; \<open>createPipeline\<close> hands each of the two
  buffers to shader-module creation with the length of the file as code size, and
  throws when either file is missing.
\<close>

theorem readFile_exact_contents:
  "(map_of fs name = Some content \<longrightarrow> readFile fs name = Inr content)
   \<and> (map_of fs name = None \<longrightarrow>
        readFile fs name = Inl (runtime_error (''failed to open file: '' @ name)))
   \<and> (map_of fs ''shaders/shader.vert.spv'' = Some v
       \<and> map_of fs ''shaders/shader.frag.spv'' = Some f \<longrightarrow>
        createPipeline_shaders fs
          = Inr (\<lparr>codeSize = length v, pCode = v\<rparr>, \<lparr>codeSize = length f, pCode = f\<rparr>))
   \<and> (map_of fs ''shaders/shader.vert.spv'' = None
       \<or> map_of fs ''shaders/shader.frag.spv'' = None \<longrightarrow>
        (\<exists>file_name. createPipeline_shaders fs
           = Inl (runtime_error (''failed to open file: '' @ file_name))))"
  by (auto simp: createPipeline_shaders_def readFile_eq shaderModuleInfo_def
      split: option.splits)

theorem readFile_exact_contents_witness:
  "map_of odd_files ''shaders/shader.vert.spv'' = Some [3, 2, 35, 7, 9]
   \<and> map_of odd_files ''shaders/shader.frag.spv'' = Some [3, 2, 35, 7]
   \<and> readFile odd_files ''shaders/shader.vert.spv'' = Inr [3, 2, 35, 7, 9]
   \<and> map_of (tl odd_files) ''shaders/shader.vert.spv'' = None
   \<and> readFile (tl odd_files) ''shaders/shader.vert.spv''
     = Inl (runtime_error ''failed to open file: shaders/shader.vert.spv'')
   \<and> createPipeline_shaders (tl odd_files)
     = Inl (runtime_error ''failed to open file: shaders/shader.vert.spv'')"
  using readFile_exact_contents
          [of odd_files "''shaders/shader.vert.spv''" "[3, 2, 35, 7, 9]" "[3, 2, 35, 7, 9]"
              "[3, 2, 35, 7]"]
        readFile_exact_contents [of "tl odd_files" "''shaders/shader.vert.spv''"]
  by (auto simp: odd_files_def createPipeline_shaders_def readFile_eq)

section \<open>Adapter selection\<close>

lemma suitable_from_filter:
  "suitable_from i qs = filter (\<lambda>k. graphics_and_present (qs ! (k - i))) [i..<i + length qs]"
proof (induction qs arbitrary: i)
  case Nil
  then show ?case by simp
next
  case (Cons q qs)
  have shift: "filter (\<lambda>k. graphics_and_present ((q # qs) ! (k - i))) [Suc i..<Suc i + length qs]
             = filter (\<lambda>k. graphics_and_present (qs ! (k - Suc i))) [Suc i..<Suc i + length qs]"
    by (rule filter_cong) (auto simp: nth_Cons')
  have "[i..<i + Suc (length qs)] = i # [Suc i..<i + Suc (length qs)]"
    by (rule upt_conv_Cons) simp
  then have "[i..<i + length (q # qs)] = i # [Suc i..<Suc i + length qs]"
    by simp
  then show ?case
    using Cons.IH [of "Suc i"] shift by simp
qed

lemma suitable_qfams_from: "suitable_qfams d = suitable_from 0 (qfams d)"
  by (simp add: suitable_qfams_def suitable_from_filter)

lemma suitable_from_empty:
  "(suitable_from i qs = []) = (\<forall>q \<in> set qs. \<not> graphics_and_present q)"
  by (induction qs arbitrary: i) auto

lemma scan_qfams_other:
  "deviceType d \<noteq> eDiscreteGpu \<Longrightarrow>
   scan_qfams d i qs (rg, vg) =
     (False,
      (if suitable_from i qs = [] then rg else mkRenderGroup d (last (suitable_from i qs))),
      vg @ map (mkRenderGroup d) (suitable_from i qs))"
  by (induction qs arbitrary: i rg vg) (auto simp: Let_def)

lemma scan_qfams_discrete:
  "deviceType d = eDiscreteGpu \<Longrightarrow>
   scan_qfams d i qs (rg, vg) =
     (case suitable_from i qs of
        [] \<Rightarrow> (False, rg, vg)
      | j # js \<Rightarrow> (True, mkRenderGroup d j, vg))"
  by (induction qs arbitrary: i) (auto simp: Let_def)

lemma is_candidate_groups: "is_candidate d = (groups_of d \<noteq> [])"
  by (auto simp: is_candidate_def groups_of_def suitable_qfams_from suitable_from_empty)

lemma groups_of_hd: "is_candidate d \<Longrightarrow> hd (groups_of d) = candidate_group d"
  by (auto simp: is_candidate_def groups_of_def candidate_group_def suitable_qfams_from
      suitable_from_empty hd_map)

text \<open>One device that is not a discrete candidate: the scan goes on.\<close>

lemma scan_devices_skip:
  assumes "\<not> (is_candidate d \<and> is_discrete d)"
  shows "\<exists>rg'. scan_devices (d # ds) (rg, vg) = scan_devices ds (rg', vg @ groups_of d)
              \<and> (groups_of d = [] \<longrightarrow> rg' = rg)"
proof (cases "formats (details d) = [] \<or> present_modes (details d) = []")
  case True
  then show ?thesis by (auto simp: groups_of_def)
next
  case nonempty: False
  show ?thesis
  proof (cases "deviceType d = eDiscreteGpu")
    case True
    with assms nonempty have "suitable_from 0 (qfams d) = []"
      by (auto simp: is_candidate_def is_discrete_def suitable_from_empty)
    with True nonempty show ?thesis
      by (simp add: scan_qfams_discrete groups_of_def suitable_qfams_from)
  next
    case False
    with nonempty show ?thesis
      by (auto simp: scan_qfams_other groups_of_def suitable_qfams_from)
  qed
qed

lemma scan_devices_no_discrete:
  "\<forall>x \<in> set ds. \<not> (is_candidate x \<and> is_discrete x) \<Longrightarrow>
   \<exists>rg'. scan_devices ds (rg, vg) = (False, rg', vg @ concat (map groups_of ds))
        \<and> (concat (map groups_of ds) = [] \<longrightarrow> rg' = rg)"
proof (induction ds arbitrary: rg vg)
  case Nil
  then show ?case by simp
next
  case (Cons d ds)
  from Cons.prems have nd: "\<not> (is_candidate d \<and> is_discrete d)" by simp
  from scan_devices_skip [OF nd, of ds rg vg] obtain rg1 where
    step: "scan_devices (d # ds) (rg, vg) = scan_devices ds (rg1, vg @ groups_of d)"
    and same: "groups_of d = [] \<longrightarrow> rg1 = rg" by blast
  from Cons.prems have "\<forall>x \<in> set ds. \<not> (is_candidate x \<and> is_discrete x)" by simp
  from Cons.IH [OF this, of rg1 "vg @ groups_of d"] obtain rg2 where
    rest: "scan_devices ds (rg1, vg @ groups_of d)
             = (False, rg2, (vg @ groups_of d) @ concat (map groups_of ds))"
    and same2: "concat (map groups_of ds) = [] \<longrightarrow> rg2 = rg1" by blast
  show ?case
    using step rest same same2 by (intro exI [of _ rg2]) simp
qed

lemma scan_devices_discrete:
  assumes "is_candidate d" "is_discrete d" "\<forall>x \<in> set pre. \<not> (is_candidate x \<and> is_discrete x)"
  shows "\<exists>vg'. scan_devices (pre @ d # post) (rg, vg) = (True, candidate_group d, vg')"
  using assms(3)
proof (induction pre arbitrary: rg vg)
  case Nil
  from assms(1,2) obtain j js where "suitable_from 0 (qfams d) = j # js"
    by (cases "suitable_from 0 (qfams d)") (auto simp: is_candidate_def suitable_from_empty)
  with assms(1,2) show ?case
    by (simp add: is_candidate_def is_discrete_def scan_qfams_discrete candidate_group_def
        suitable_qfams_from)
next
  case (Cons x pre)
  from Cons.prems have nd: "\<not> (is_candidate x \<and> is_discrete x)" by simp
  from scan_devices_skip [OF nd, of "pre @ d # post" rg vg] obtain rg1 where
    step: "scan_devices (x # pre @ d # post) (rg, vg)
             = scan_devices (pre @ d # post) (rg1, vg @ groups_of x)" by blast
  from Cons.prems have "\<forall>x \<in> set pre. \<not> (is_candidate x \<and> is_discrete x)" by simp
  from Cons.IH [OF this, of rg1 "vg @ groups_of x"] step show ?case by simp
qed

lemma chooseRenderGroup_discrete:
  assumes "is_candidate d" "is_discrete d" "\<forall>x \<in> set pre. \<not> (is_candidate x \<and> is_discrete x)"
  shows "chooseRenderGroup (pre @ d # post) r = Inr (r\<lparr>rend_group := candidate_group d\<rparr>)"
proof -
  from scan_devices_discrete [OF assms, of post "rend_group r" "[]"] obtain vg' where
    "scan_devices (pre @ d # post) (rend_group r, []) = (True, candidate_group d, vg')" by blast
  then show ?thesis by (simp add: chooseRenderGroup_def)
qed

lemma concat_groups_first:
  assumes "is_candidate d" "\<forall>x \<in> set pre. \<not> is_candidate x"
  shows "concat (map groups_of (pre @ d # post)) \<noteq> []
       \<and> concat (map groups_of (pre @ d # post)) ! 0 = candidate_group d"
proof -
  from assms(2) have pre: "concat (map groups_of pre) = []"
    by (induction pre) (auto simp: is_candidate_groups)
  from assms(1) obtain g gs where g: "groups_of d = g # gs"
    by (cases "groups_of d") (auto simp: is_candidate_groups)
  with groups_of_hd [OF assms(1)] have "g = candidate_group d" by simp
  with g have g': "groups_of d = candidate_group d # gs" by simp
  have "concat (map groups_of (pre @ d # post))
          = concat (map groups_of pre) @ groups_of d @ concat (map groups_of post)"
    by simp
  also have "\<dots> = candidate_group d # gs @ concat (map groups_of post)"
    unfolding pre g' by simp
  finally have "concat (map groups_of (pre @ d # post))
                  = candidate_group d # gs @ concat (map groups_of post)" .
  then show ?thesis by (simp only: nth_Cons_0 list.distinct not_False_eq_True simp_thms)
qed

lemma chooseRenderGroup_first_valid:
  assumes "\<forall>x \<in> set (pre @ d # post). \<not> (is_candidate x \<and> is_discrete x)"
    and "is_candidate d" "\<forall>x \<in> set pre. \<not> is_candidate x"
  shows "chooseRenderGroup (pre @ d # post) r = Inr (r\<lparr>rend_group := candidate_group d\<rparr>)"
proof -
  from scan_devices_no_discrete [OF assms(1), of "rend_group r" "[]"] obtain rg' where
    "scan_devices (pre @ d # post) (rend_group r, [])
       = (False, rg', concat (map groups_of (pre @ d # post)))" by auto
  with concat_groups_first [OF assms(2,3), of post] show ?thesis
    by (simp add: chooseRenderGroup_def)
qed

lemma scan_devices_none:
  assumes "\<forall>x \<in> set devs. \<not> is_candidate x"
  shows "scan_devices devs (rg, vg) = (False, rg, vg)"
proof -
  from assms have e: "concat (map groups_of devs) = []"
    by (induction devs) (auto simp: is_candidate_groups)
  from assms have "\<forall>x \<in> set devs. \<not> (is_candidate x \<and> is_discrete x)" by simp
  from scan_devices_no_discrete [OF this, of rg vg] e show ?thesis by auto
qed

lemma chooseRenderGroup_Inl:
  "chooseRenderGroup devs r = Inl e \<Longrightarrow>
   e = runtime_error ''no suitable device group found'' \<and> (\<forall>x \<in> set devs. \<not> is_candidate x)"
proof -
  assume f: "chooseRenderGroup devs r = Inl e"
  have "\<forall>x \<in> set devs. \<not> is_candidate x"
  proof (rule ccontr)
    assume "\<not> (\<forall>x \<in> set devs. \<not> is_candidate x)"
    then have ex: "\<exists>x \<in> set devs. is_candidate x" by simp
    show False
    proof (cases "\<exists>x \<in> set devs. is_candidate x \<and> is_discrete x")
      case True
      then obtain pre d post where "devs = pre @ d # post" "is_candidate d \<and> is_discrete d"
        "\<forall>x \<in> set pre. \<not> (is_candidate x \<and> is_discrete x)"
        by (auto dest!: split_list_first_prop)
      with chooseRenderGroup_discrete [of d pre post r] f show False by simp
    next
      case False
      from ex obtain pre d post where "devs = pre @ d # post" "is_candidate d"
        "\<forall>x \<in> set pre. \<not> is_candidate x"
        by (auto dest!: split_list_first_prop)
      with chooseRenderGroup_first_valid [of pre d post r] False f show False by simp
    qed
  qed
  moreover from f have "e = runtime_error ''no suitable device group found''"
    by (auto simp: chooseRenderGroup_def split: prod.splits bool.splits if_splits)
  ultimately show ?thesis by simp
qed

text \<open>
  Claim C6.  When the enumeration holds a discrete candidate, the first discrete
  candidate \<open>d\<close> is selected with its first suitable queue family, whatever was
  enumerated before it (candidates that are not discrete included) and whatever comes
  after it: the scan returns at \<open>d\<close>.  When no candidate is discrete, the first
  candidate in enumeration order is selected, with its first suitable queue family.
\<close>

theorem chooseRenderGroup_policy:
  "(is_candidate d \<and> is_discrete d
      \<and> (\<forall>x \<in> set pre. \<not> (is_candidate x \<and> is_discrete x)) \<longrightarrow>
      chooseRenderGroup (pre @ d # post) r = Inr (r\<lparr>rend_group := candidate_group d\<rparr>))
   \<and> ((\<forall>x \<in> set (pre @ d # post). \<not> (is_candidate x \<and> is_discrete x))
      \<and> is_candidate d \<and> (\<forall>x \<in> set pre. \<not> is_candidate x) \<longrightarrow>
      chooseRenderGroup (pre @ d # post) r = Inr (r\<lparr>rend_group := candidate_group d\<rparr>))
   \<and> ((\<exists>x \<in> set devs. is_candidate x \<and> is_discrete x) \<longrightarrow>
      (\<exists>x \<in> set devs. is_candidate x \<and> is_discrete x
         \<and> chooseRenderGroup devs r = Inr (r\<lparr>rend_group := candidate_group x\<rparr>)))"
proof (intro conjI impI)
  assume "is_candidate d \<and> is_discrete d
      \<and> (\<forall>x \<in> set pre. \<not> (is_candidate x \<and> is_discrete x))"
  then show "chooseRenderGroup (pre @ d # post) r = Inr (r\<lparr>rend_group := candidate_group d\<rparr>)"
    by (simp add: chooseRenderGroup_discrete)
next
  assume "(\<forall>x \<in> set (pre @ d # post). \<not> (is_candidate x \<and> is_discrete x))
      \<and> is_candidate d \<and> (\<forall>x \<in> set pre. \<not> is_candidate x)"
  then show "chooseRenderGroup (pre @ d # post) r = Inr (r\<lparr>rend_group := candidate_group d\<rparr>)"
    using chooseRenderGroup_first_valid [of pre d post r] by blast
next
  assume "\<exists>x \<in> set devs. is_candidate x \<and> is_discrete x"
  then obtain ys x zs where split: "devs = ys @ x # zs" "is_candidate x \<and> is_discrete x"
    "\<forall>y \<in> set ys. \<not> (is_candidate y \<and> is_discrete y)"
    by (auto dest!: split_list_first_prop)
  then have "chooseRenderGroup devs r = Inr (r\<lparr>rend_group := candidate_group x\<rparr>)"
    by (simp add: chooseRenderGroup_discrete)
  with split show "\<exists>x \<in> set devs. is_candidate x \<and> is_discrete x
         \<and> chooseRenderGroup devs r = Inr (r\<lparr>rend_group := candidate_group x\<rparr>)"
    by auto
qed

theorem chooseRenderGroup_policy_witness:
  "is_candidate discrete_gpu \<and> is_discrete discrete_gpu
   \<and> is_candidate integrated_gpu \<and> \<not> is_discrete integrated_gpu
   \<and> \<not> is_candidate headless_gpu \<and> \<not> is_candidate cpu_device
   \<and> chooseRenderGroup [integrated_gpu, headless_gpu, discrete_gpu, integrated_gpu] unconstructed
     = Inr (unconstructed\<lparr>rend_group := candidate_group discrete_gpu\<rparr>)
   \<and> candidate_group discrete_gpu
     = \<lparr>dev = 0x30, qfam_idx = 0, surf_details = details discrete_gpu\<rparr>
   \<and> chooseRenderGroup [cpu_device, headless_gpu, integrated_gpu, integrated_gpu] unconstructed
     = Inr (unconstructed\<lparr>rend_group := candidate_group integrated_gpu\<rparr>)
   \<and> candidate_group integrated_gpu
     = \<lparr>dev = 0x10, qfam_idx = 1, surf_details = details integrated_gpu\<rparr>"
proof -
  have c: "is_candidate discrete_gpu" "is_discrete discrete_gpu"
    "is_candidate integrated_gpu" "\<not> is_discrete integrated_gpu"
    "\<not> is_candidate headless_gpu" "\<not> is_candidate cpu_device"
    by (simp_all add: is_candidate_def is_discrete_def graphics_and_present_def eGraphics_def
        discrete_gpu_def integrated_gpu_def headless_gpu_def cpu_device_def example_details_def)
  have g: "candidate_group discrete_gpu
             = \<lparr>dev = 0x30, qfam_idx = 0, surf_details = details discrete_gpu\<rparr>"
    "candidate_group integrated_gpu
             = \<lparr>dev = 0x10, qfam_idx = 1, surf_details = details integrated_gpu\<rparr>"
    by (simp_all add: candidate_group_def mkRenderGroup_def suitable_qfams_def
        graphics_and_present_def eGraphics_def discrete_gpu_def integrated_gpu_def)
  from c g
    chooseRenderGroup_policy
      [of discrete_gpu "[integrated_gpu, headless_gpu]" "[integrated_gpu]" unconstructed "[]"]
    chooseRenderGroup_policy
      [of integrated_gpu "[cpu_device, headless_gpu]" "[integrated_gpu]" unconstructed "[]"]
  show ?thesis by simp
qed

text \<open>
  Claim C7.  \<open>chooseRenderGroup\<close> throws exactly when no enumerated adapter is a
  candidate, that is when every adapter has an empty format list, an empty present-mode
  list or no queue family with both graphics and presentation; the error is the
  no-suitable-device error and nothing else; and in that case the scan has assigned
  nothing to \<open>rend_group\<close> and has recorded no valid group.
\<close>

theorem chooseRenderGroup_fails_iff:
  "((\<exists>e. chooseRenderGroup devs r = Inl e) = (\<forall>d \<in> set devs. \<not> is_candidate d))
   \<and> ((\<exists>e. chooseRenderGroup devs r = Inl e) =
        (chooseRenderGroup devs r = Inl (runtime_error ''no suitable device group found'')))
   \<and> ((\<forall>d \<in> set devs. \<not> is_candidate d) \<longrightarrow>
        scan_devices devs (rend_group r, []) = (False, rend_group r, []))"
proof -
  have none: "chooseRenderGroup devs r = Inl (runtime_error ''no suitable device group found'')"
    if "\<forall>d \<in> set devs. \<not> is_candidate d"
    using scan_devices_none [OF that, of "rend_group r" "[]"]
    by (simp add: chooseRenderGroup_def)
  show ?thesis
    using none chooseRenderGroup_Inl [of devs r] scan_devices_none [of devs "rend_group r" "[]"]
    by blast
qed

theorem chooseRenderGroup_fails_iff_witness:
  "\<not> is_candidate cpu_device \<and> \<not> is_candidate headless_gpu
   \<and> chooseRenderGroup [cpu_device, headless_gpu] unconstructed
     = Inl (runtime_error ''no suitable device group found'')
   \<and> scan_devices [cpu_device, headless_gpu] (rend_group unconstructed, [])
     = (False, rend_group unconstructed, [])
   \<and> is_candidate integrated_gpu
   \<and> chooseRenderGroup [cpu_device, integrated_gpu] unconstructed
     \<noteq> Inl (runtime_error ''no suitable device group found'')"
proof -
  have c: "\<not> is_candidate cpu_device" "\<not> is_candidate headless_gpu" "is_candidate integrated_gpu"
    by (simp_all add: is_candidate_def graphics_and_present_def eGraphics_def
        integrated_gpu_def headless_gpu_def cpu_device_def example_details_def)
  from c chooseRenderGroup_fails_iff [of "[cpu_device, headless_gpu]" unconstructed]
    chooseRenderGroup_fails_iff [of "[cpu_device, integrated_gpu]" unconstructed]
  show ?thesis by auto
qed

section \<open>The draw step\<close>

lemma draw_submit_Inr:
  assumes "draw_submit r env img = (evs, Inr r')"
  shows "r' = r\<lparr>frame_idx := ((frame_idx r + 1) mod 2 ^ 64) mod unat (img_count r)\<rparr>
       \<and> unat (img_count r) \<noteq> 0
       \<and> frame_idx r < length (frame_inflight r)
       \<and> frame_idx r < length (image_available r)
       \<and> frame_idx r < length (render_finished r)
       \<and> unat img < length (cmd_bufs r)
       \<and> present env = Returns eSuccess"
  using assms
  by (auto simp: draw_submit_def Let_def split: if_splits call.splits)

lemma draw_Inr:
  assumes "snd (draw r env) = Inr r'"
  shows "\<exists>img. acquire env = Returns img
       \<and> wait_frame env = Returns eSuccess
       \<and> unat img < length (image_inflight r)
       \<and> unat img < length (cmd_bufs r)
       \<and> frame_idx r < length (frame_inflight r)
       \<and> unat (img_count r) \<noteq> 0
       \<and> r' = r\<lparr>image_inflight := (image_inflight r)[unat img := frame_inflight r ! frame_idx r],
                 frame_idx := ((frame_idx r + 1) mod 2 ^ 64) mod unat (img_count r)\<rparr>"
  using assms
  apply (simp add: draw_def Let_def split: if_splits call.splits prod.splits)
  apply (auto dest!: draw_submit_Inr)
  done

lemma draw_preserves:
  assumes "snd (draw r env) = Inr r'"
  shows "img_count r' = img_count r" "images r' = images r" "image_views r' = image_views r"
    "framebuffers r' = framebuffers r" "cmd_bufs r' = cmd_bufs r" "recorded r' = recorded r"
    "frame_inflight r' = frame_inflight r" "image_available r' = image_available r"
    "render_finished r' = render_finished r"
    "length (image_inflight r') = length (image_inflight r)"
    "frame_idx r' = ((frame_idx r + 1) mod 2 ^ 64) mod unat (img_count r)"
    "unat (img_count r) \<noteq> 0"
  using draw_Inr [OF assms] by auto

lemma run_continuous_preserves:
  "run_continuous r envs = Inr r' \<Longrightarrow>
   img_count r' = img_count r \<and> images r' = images r \<and> image_views r' = image_views r
   \<and> framebuffers r' = framebuffers r \<and> cmd_bufs r' = cmd_bufs r \<and> recorded r' = recorded r
   \<and> frame_inflight r' = frame_inflight r \<and> image_available r' = image_available r
   \<and> render_finished r' = render_finished r
   \<and> length (image_inflight r') = length (image_inflight r)"
proof (induction envs arbitrary: r)
  case Nil
  then show ?case by simp
next
  case (Cons env envs)
  from Cons.prems obtain r1 where d: "snd (draw r env) = Inr r1"
    and rest: "run_continuous r1 envs = Inr r'"
    by (auto split: sum.splits)
  from Cons.IH [OF rest] draw_preserves [OF d] show ?case by simp
qed

lemma next_slot:
  assumes "fi < n" "n < 2 ^ 32"
  shows "((fi + 1) mod 2 ^ 64) mod n = Suc fi mod (n :: nat)"
proof -
  from assms have "fi + 1 < (2 :: nat) ^ 64"
    by (simp add: less_trans [OF _ power_strict_increasing [of 32 64 "2 :: nat"]])
  then show ?thesis by simp
qed

lemma run_continuous_frame_idx:
  "run_continuous r envs = Inr r' \<Longrightarrow> frame_idx r < unat (img_count r) \<Longrightarrow>
   frame_idx r' = (frame_idx r + length envs) mod unat (img_count r)"
proof (induction envs arbitrary: r)
  case Nil
  then show ?case by simp
next
  case (Cons env envs)
  let ?n = "unat (img_count r)"
  from Cons.prems obtain r1 where d: "snd (draw r env) = Inr r1"
    and rest: "run_continuous r1 envs = Inr r'"
    by (auto split: sum.splits)
  have bound: "?n < 2 ^ 32"
    using unsigned_less [of "img_count r", where ?'a = nat] by simp
  from draw_preserves(11) [OF d] next_slot [OF Cons.prems(2) bound]
  have fi1: "frame_idx r1 = Suc (frame_idx r) mod ?n" by simp
  have n1: "img_count r1 = img_count r" by (rule draw_preserves(1) [OF d])
  from Cons.prems(2) have "0 < ?n" by simp
  then have "frame_idx r1 < unat (img_count r1)" by (simp add: fi1 n1)
  from Cons.IH [OF rest this] have "frame_idx r' = (Suc (frame_idx r) mod ?n + length envs) mod ?n"
    by (simp add: fi1 n1)
  also have "\<dots> = (frame_idx r + length (env # envs)) mod ?n"
    by (simp add: mod_add_left_eq)
  finally show ?case .
qed

lemma draw_first_event:
  "frame_idx r < length (frame_inflight r) \<Longrightarrow>
   \<exists>evs. fst (draw r env) = WaitForFences (frame_inflight r ! frame_idx r) # evs"
  by (auto simp: draw_def Let_def split: call.splits prod.splits)

section \<open>The constructor\<close>

lemma length_resize: "length (resize n d xs) = n"
  by (simp add: resize_def)

lemma resize_Nil: "resize n d [] = replicate n d"
  by (simp add: resize_def)

lemma fill_step:
  assumes "k < length vs"
  shows "(map g [0..<k] @ drop k vs)[k := v] = map g [0..<k] @ v # drop (Suc k) vs"
proof -
  from assms have "drop k vs = vs ! k # drop (Suc k) vs"
    by (simp add: Cons_nth_drop_Suc)
  then show ?thesis
    by (simp add: list_update_append)
qed

lemma fill_nth:
  assumes "k < length vs"
  shows "(map g [0..<k] @ drop k vs) ! k = vs ! k"
  using assms by (simp add: nth_append)

lemma map_nth_upt: "map (\<lambda>i. f (xs ! i)) [0..<length xs] = map f xs"
  by (rule nth_equalityI) simp_all

lemma createImageViews_eq:
  "createImageViews p r = r\<lparr>image_views := map (new_image_view p) (images r)\<rparr>"
proof -
  define r1 where "r1 = r\<lparr>image_views := resize (length (images r)) null_handle (image_views r)\<rparr>"
  define g where "g = (\<lambda>i. new_image_view p (images r ! i))"
  define step :: "nat \<Rightarrow> Renderer \<Rightarrow> Renderer" where
    "step = (\<lambda>i s. s\<lparr>image_views := (image_views s)[i := new_image_view p (images s ! i)]\<rparr>)"
  have len: "length (image_views r1) = length (images r)"
    by (simp add: r1_def length_resize)
  have src: "images (r1\<lparr>image_views := vs\<rparr>) = images r" for vs
    by (simp add: r1_def)
  have inv: "fold step [0..<k] r1 = r1\<lparr>image_views := map g [0..<k] @ drop k (image_views r1)\<rparr>"
    if "k \<le> length (images r)" for k
    using that
  proof (induction k)
    case 0
    then show ?case by simp
  next
    case (Suc k)
    then have k: "k < length (image_views r1)" by (simp add: len)
    from Suc have "fold step [0..<Suc k] r1
        = step k (r1\<lparr>image_views := map g [0..<k] @ drop k (image_views r1)\<rparr>)"
      by simp
    also have "\<dots> = r1\<lparr>image_views := map g [0..<Suc k] @ drop (Suc k) (image_views r1)\<rparr>"
      by (simp add: step_def fill_step [OF k] g_def src)
    finally show ?case .
  qed
  have "createImageViews p r = fold step [0..<length (images r)] r1"
    by (simp add: createImageViews_def r1_def step_def Let_def)
  also have "\<dots> = r1\<lparr>image_views := map g [0..<length (images r)]\<rparr>"
    using inv [of "length (images r)"] by (simp add: len)
  also have "\<dots> = r\<lparr>image_views := map (new_image_view p) (images r)\<rparr>"
    by (simp add: r1_def g_def map_nth_upt)
  finally show ?thesis .
qed

lemma createFramebuffers_eq:
  "createFramebuffers p r = r\<lparr>framebuffers := map (new_framebuffer p) (image_views r)\<rparr>"
proof -
  define r1 where
    "r1 = r\<lparr>framebuffers := resize (length (image_views r)) null_handle (framebuffers r)\<rparr>"
  define g where "g = (\<lambda>i. new_framebuffer p (image_views r ! i))"
  define step :: "nat \<Rightarrow> Renderer \<Rightarrow> Renderer" where
    "step = (\<lambda>i s. s\<lparr>framebuffers := (framebuffers s)[i := new_framebuffer p (image_views s ! i)]\<rparr>)"
  have len: "length (framebuffers r1) = length (image_views r)"
    by (simp add: r1_def length_resize)
  have src: "image_views (r1\<lparr>framebuffers := vs\<rparr>) = image_views r" for vs
    by (simp add: r1_def)
  have inv: "fold step [0..<k] r1 = r1\<lparr>framebuffers := map g [0..<k] @ drop k (framebuffers r1)\<rparr>"
    if "k \<le> length (image_views r)" for k
    using that
  proof (induction k)
    case 0
    then show ?case by simp
  next
    case (Suc k)
    then have k: "k < length (framebuffers r1)" by (simp add: len)
    from Suc have "fold step [0..<Suc k] r1
        = step k (r1\<lparr>framebuffers := map g [0..<k] @ drop k (framebuffers r1)\<rparr>)"
      by simp
    also have "\<dots> = r1\<lparr>framebuffers := map g [0..<Suc k] @ drop (Suc k) (framebuffers r1)\<rparr>"
      by (simp add: step_def fill_step [OF k] g_def src)
    finally show ?case .
  qed
  have "createFramebuffers p r = fold step [0..<length (image_views r)] r1"
    by (simp add: createFramebuffers_def r1_def step_def Let_def)
  also have "\<dots> = r1\<lparr>framebuffers := map g [0..<length (image_views r)]\<rparr>"
    using inv [of "length (image_views r)"] by (simp add: len)
  also have "\<dots> = r\<lparr>framebuffers := map (new_framebuffer p) (image_views r)\<rparr>"
    by (simp add: r1_def g_def map_nth_upt)
  finally show ?thesis .
qed

lemma recordCommandBuffers_eq:
  assumes "length (recorded r) = length (cmd_bufs r)"
  shows "recordCommandBuffers r =
     r\<lparr>recorded := map (\<lambda>i. recorded r ! i @ record_one r i) [0..<length (cmd_bufs r)]\<rparr>"
proof -
  define g where "g = (\<lambda>i. recorded r ! i @ record_one r i)"
  define step :: "nat \<Rightarrow> Renderer \<Rightarrow> Renderer" where
    "step = (\<lambda>i s. s\<lparr>recorded := (recorded s)[i := recorded s ! i @ record_one s i]\<rparr>)"
  have one: "record_one (r\<lparr>recorded := xs\<rparr>) i = record_one r i" for xs i
    by (simp add: record_one_def)
  have inv: "fold step [0..<k] r = r\<lparr>recorded := map g [0..<k] @ drop k (recorded r)\<rparr>"
    if "k \<le> length (cmd_bufs r)" for k
    using that
  proof (induction k)
    case 0
    then show ?case by simp
  next
    case (Suc k)
    then have k: "k < length (recorded r)" by (simp add: assms)
    from Suc have "fold step [0..<Suc k] r
        = step k (r\<lparr>recorded := map g [0..<k] @ drop k (recorded r)\<rparr>)"
      by simp
    also have "\<dots> = r\<lparr>recorded := map g [0..<Suc k] @ drop (Suc k) (recorded r)\<rparr>"
      by (simp add: step_def fill_step [OF k] fill_nth [OF k] one g_def)
    finally show ?case .
  qed
  have "recordCommandBuffers r = fold step [0..<length (cmd_bufs r)] r"
    by (simp add: recordCommandBuffers_def step_def)
  also have "\<dots> = r\<lparr>recorded := map g [0..<length (cmd_bufs r)]\<rparr>"
    using inv [of "length (cmd_bufs r)"] by (simp add: assms)
  finally show ?thesis by (simp add: g_def)
qed

lemma createSyncPrimitives_eq:
  "createSyncPrimitives p r =
     r\<lparr>image_available := map (\<lambda>i. new_semaphore p (2 * i)) [0..<unat (img_count r)],
       render_finished := map (\<lambda>i. new_semaphore p (2 * i + 1)) [0..<unat (img_count r)],
       frame_inflight := map (new_fence p) [0..<unat (img_count r)],
       image_inflight := resize (unat (img_count r)) null_handle (image_inflight r)\<rparr>"
proof -
  define n where "n = unat (img_count r)"
  define r1 where
    "r1 = r\<lparr>image_available := resize n null_handle (image_available r),
            render_finished := resize n null_handle (render_finished r),
            frame_inflight := resize n null_handle (frame_inflight r),
            image_inflight := resize n null_handle (image_inflight r)\<rparr>"
  define step :: "nat \<Rightarrow> Renderer \<Rightarrow> Renderer" where
    "step = (\<lambda>i s. s\<lparr>image_available := (image_available s)[i := new_semaphore p (2 * i)],
                     render_finished := (render_finished s)[i := new_semaphore p (2 * i + 1)],
                     frame_inflight := (frame_inflight s)[i := new_fence p i]\<rparr>)"
  have len: "length (image_available r1) = n" "length (render_finished r1) = n"
    "length (frame_inflight r1) = n"
    by (simp_all add: r1_def length_resize)
  have inv: "fold step [0..<k] r1 =
      r1\<lparr>image_available := map (\<lambda>i. new_semaphore p (2 * i)) [0..<k]
                                @ drop k (image_available r1),
         render_finished := map (\<lambda>i. new_semaphore p (2 * i + 1)) [0..<k]
                                @ drop k (render_finished r1),
         frame_inflight := map (new_fence p) [0..<k] @ drop k (frame_inflight r1)\<rparr>"
    if "k \<le> n" for k
    using that
  proof (induction k)
    case 0
    then show ?case by simp
  next
    case (Suc k)
    then have k: "k < length (image_available r1)" "k < length (render_finished r1)"
      "k < length (frame_inflight r1)" by (simp_all add: len)
    from Suc have "fold step [0..<Suc k] r1
        = step k (r1\<lparr>image_available := map (\<lambda>i. new_semaphore p (2 * i)) [0..<k]
                                @ drop k (image_available r1),
         render_finished := map (\<lambda>i. new_semaphore p (2 * i + 1)) [0..<k]
                                @ drop k (render_finished r1),
         frame_inflight := map (new_fence p) [0..<k] @ drop k (frame_inflight r1)\<rparr>)"
      by simp
    also have "\<dots> = r1\<lparr>image_available := map (\<lambda>i. new_semaphore p (2 * i)) [0..<Suc k]
                                @ drop (Suc k) (image_available r1),
         render_finished := map (\<lambda>i. new_semaphore p (2 * i + 1)) [0..<Suc k]
                                @ drop (Suc k) (render_finished r1),
         frame_inflight := map (new_fence p) [0..<Suc k] @ drop (Suc k) (frame_inflight r1)\<rparr>"
      by (simp add: step_def fill_step [OF k(1)] fill_step [OF k(2)] fill_step [OF k(3)])
    finally show ?case .
  qed
  have "createSyncPrimitives p r = fold step [0..<n] r1"
    by (simp add: createSyncPrimitives_def r1_def step_def n_def Let_def)
  also have "\<dots> = r1\<lparr>image_available := map (\<lambda>i. new_semaphore p (2 * i)) [0..<n],
         render_finished := map (\<lambda>i. new_semaphore p (2 * i + 1)) [0..<n],
         frame_inflight := map (new_fence p) [0..<n]\<rparr>"
    using inv [of n] by (simp add: len)
  finally show ?thesis by (simp add: r1_def n_def)
qed

lemma chooseRenderGroup_shape:
  "chooseRenderGroup devs r = Inr r' \<Longrightarrow> \<exists>rg. r' = r\<lparr>rend_group := rg\<rparr>"
  by (auto simp: chooseRenderGroup_def split: prod.splits bool.splits if_splits)

lemma chooseSurfaceFormat_shape:
  "chooseSurfaceFormat r = Inr r' \<Longrightarrow> \<exists>fmt. r' = r\<lparr>r_format := fmt\<rparr>"
  by (auto simp: chooseSurfaceFormat_def split: option.splits list.splits)

lemma chooseImageCount_shape:
  "\<exists>n. chooseImageCount r = r\<lparr>img_count := n\<rparr>"
  by (simp add: chooseImageCount_def Let_def) blast

lemma chooseSwapExtent_shape:
  "chooseSwapExtent r w h = Inr r' \<Longrightarrow> \<exists>e. r' = r\<lparr>extent := e\<rparr>"
  by (auto simp: chooseSwapExtent_def Let_def split: if_splits sum.splits)

lemma Renderer_new_Inr:
  assumes "Renderer_new p u = Inr r"
  shows "frame_idx r = 0
       \<and> images r = swapchain_images p
       \<and> image_views r = map (new_image_view p) (images r)
       \<and> framebuffers r = map (new_framebuffer p) (image_views r)
       \<and> cmd_bufs r = map (new_command_buffer p)
                          [0..<unat (of_nat (length (framebuffers r)) :: u32)]
       \<and> recorded r = map (record_one r) [0..<length (cmd_bufs r)]
       \<and> image_available r = map (\<lambda>i. new_semaphore p (2 * i)) [0..<unat (img_count r)]
       \<and> render_finished r = map (\<lambda>i. new_semaphore p (2 * i + 1)) [0..<unat (img_count r)]
       \<and> frame_inflight r = map (new_fence p) [0..<unat (img_count r)]
       \<and> image_inflight r = replicate (unat (img_count r)) null_handle"
proof -
  define r0 where
    "r0 = u\<lparr>frame_idx := 0, images := [], image_views := [], framebuffers := [],
            cmd_bufs := [], recorded := [], image_available := [], render_finished := [],
            frame_inflight := [], image_inflight := []\<rparr>"
  from assms obtain r1 r2 r3 shaders where
    s1: "chooseRenderGroup (physical_devices p) r0 = Inr r1"
    and s2: "chooseSurfaceFormat r1 = Inr r2"
    and s3: "chooseSwapExtent (chooseImageCount r2) (fb_width p) (fb_height p) = Inr r3"
    and s4: "r = createSyncPrimitives p
                  (recordCommandBuffers
                    (allocateCommandBuffers p
                      (createFramebuffers p
                        (createImageViews p
                          ((createSwapchain r3)\<lparr>images := swapchain_images p\<rparr>)))))"
    by (auto simp: Renderer_new_def r0_def Let_def split: sum.splits)
  from chooseRenderGroup_shape [OF s1] obtain rg where r1: "r1 = r0\<lparr>rend_group := rg\<rparr>" ..
  from chooseSurfaceFormat_shape [OF s2] obtain fmt where r2: "r2 = r1\<lparr>r_format := fmt\<rparr>" ..
  from chooseImageCount_shape [of r2] obtain n where cnt: "chooseImageCount r2 = r2\<lparr>img_count := n\<rparr>" ..
  from chooseSwapExtent_shape [OF s3] obtain e where
    "r3 = (chooseImageCount r2)\<lparr>extent := e\<rparr>" ..
  then have r3: "r3 = r2\<lparr>img_count := n, extent := e\<rparr>"
    by (simp add: cnt)
  define r4 where "r4 = (createSwapchain r3)\<lparr>images := swapchain_images p\<rparr>"
  have empty: "frame_idx r4 = 0" "image_inflight r4 = []" "images r4 = swapchain_images p"
    by (simp_all add: r4_def createSwapchain_def r3 r2 r1 r0_def)
  define r5 where "r5 = allocateCommandBuffers p (createFramebuffers p (createImageViews p r4))"
  have r5: "frame_idx r5 = 0" "image_inflight r5 = []" "images r5 = swapchain_images p"
    "image_views r5 = map (new_image_view p) (images r5)"
    "framebuffers r5 = map (new_framebuffer p) (image_views r5)"
    "cmd_bufs r5 = map (new_command_buffer p)
                     [0..<unat (of_nat (length (framebuffers r5)) :: u32)]"
    "recorded r5 = replicate (length (cmd_bufs r5)) []"
    by (simp_all add: r5_def allocateCommandBuffers_def createFramebuffers_eq
        createImageViews_eq empty Let_def)
  have len: "length (recorded r5) = length (cmd_bufs r5)"
    by (simp add: r5(7))
  define r6 where "r6 = recordCommandBuffers r5"
  have r6_eq: "r6 = r5\<lparr>recorded := map (record_one r5) [0..<length (cmd_bufs r5)]\<rparr>"
    unfolding r6_def recordCommandBuffers_eq [OF len]
    by (simp add: r5(7))
  have r: "r = createSyncPrimitives p r6"
    by (simp add: s4 r6_def r5_def r4_def)
  have one: "record_one r = record_one r5"
    by (simp add: fun_eq_iff record_one_def r createSyncPrimitives_eq r6_eq)
  show ?thesis
    by (simp add: one, simp add: r createSyncPrimitives_eq r6_eq r5 resize_Nil)
qed

lemma upt_3: "[0..<3] = [0, 1, 2]"
  by (simp add: upt_rec)

lemma upt_4: "[0..<4] = [0, 1, 2, 3]"
  by (simp add: upt_rec)

lemma replicate_3: "replicate 3 x = [x, x, x]"
  by (simp add: numeral_3_eq_3)

lemma example_construction:
  "Renderer_new example_platform unconstructed = Inr example_renderer"
proof -
  let ?r1 = "unconstructed\<lparr>rend_group := \<lparr>dev = 0x10, qfam_idx = 1, surf_details = example_details\<rparr>\<rparr>"
  let ?r2 = "?r1\<lparr>r_format := \<lparr>format = eB8G8R8A8Srgb, colorSpace = eVkColorspaceSrgbNonlinear\<rparr>\<rparr>"
  let ?r3 = "?r2\<lparr>img_count := 3, extent := \<lparr>width = 500, height = 500\<rparr>\<rparr>"
  have r0: "unconstructed\<lparr>frame_idx := 0, images := [], image_views := [], framebuffers := [],
                  cmd_bufs := [], recorded := [], image_available := [], render_finished := [],
                  frame_inflight := [], image_inflight := []\<rparr> = unconstructed"
    by (simp add: unconstructed_def)
  have s1: "chooseRenderGroup (physical_devices example_platform) unconstructed = Inr ?r1"
    by (simp add: example_platform_def chooseRenderGroup_def cpu_device_def integrated_gpu_def
        example_details_def graphics_and_present_def eGraphics_def mkRenderGroup_def Let_def)
  have s2: "chooseSurfaceFormat ?r1 = Inr ?r2"
    by (simp add: chooseSurfaceFormat_def example_details_def)
  have s3: "chooseImageCount ?r2 = ?r2\<lparr>img_count := 3\<rparr>"
    by (simp add: chooseImageCount_def example_details_def example_caps_def Let_def)
  have s4: "chooseSwapExtent (?r2\<lparr>img_count := 3\<rparr>) 500 500 = Inr ?r3"
    by (simp add: chooseSwapExtent_def example_details_def example_caps_def Let_def
        UINT32_MAX_def)
  have s5: "createPipeline_shaders (files example_platform)
     = Inr (\<lparr>codeSize = 8, pCode = [3, 2, 35, 7, 0, 0, 1, 0]\<rparr>,
            \<lparr>codeSize = 4, pCode = [3, 2, 35, 7]\<rparr>)"
    by (simp add: createPipeline_shaders_def readFile_eq example_platform_def
        shaderModuleInfo_def)
  have s6: "createSyncPrimitives example_platform
              (recordCommandBuffers
                (allocateCommandBuffers example_platform
                  (createFramebuffers example_platform
                    (createImageViews example_platform
                      ((createSwapchain ?r3)\<lparr>images := swapchain_images example_platform\<rparr>)))))
            = example_renderer"
    by (simp add: createSyncPrimitives_eq recordCommandBuffers_eq allocateCommandBuffers_def
        createFramebuffers_eq createImageViews_eq createSwapchain_def choosePresentMode_def
        example_platform_def example_renderer_def unconstructed_def example_details_def
        example_caps_def example_commands_def record_one_def resize_Nil upt_3 upt_4 replicate_3 null_handle_def)
  have fb: "fb_width example_platform = 500" "fb_height example_platform = 500"
    by (simp_all add: example_platform_def)
  show ?thesis
    unfolding Renderer_new_def Let_def r0 s1 sum.case s2 s3 fb s4 s5 s6 old.prod.case
    by (rule refl)
qed

lemma draw_submit_events:
  "fence_waits (fst (draw_submit r env img)) = 0"
  by (simp add: draw_submit_def fence_waits_def Let_def split: call.splits)

lemma draw_acquiring:
  assumes "frame_idx r < length (frame_inflight r)" "frame_idx r < length (image_available r)"
    "frame_idx r < length (render_finished r)" "unat i < length (image_inflight r)"
    "unat i < length (cmd_bufs r)" "unat (img_count r) \<noteq> 0"
  shows "draw r (acquiring i) =
     ([WaitForFences (frame_inflight r ! frame_idx r),
       AcquireNextImageKHR (image_available r ! frame_idx r)]
      @ (if image_inflight r ! unat i \<noteq> null_handle
         then [WaitForFences (image_inflight r ! unat i)] else [])
      @ [ResetFences (frame_inflight r ! frame_idx r),
         Submit (image_available r ! frame_idx r) (cmd_bufs r ! unat i)
                (render_finished r ! frame_idx r) (frame_inflight r ! frame_idx r),
         PresentKHR (render_finished r ! frame_idx r) i],
      Inr (r\<lparr>image_inflight := (image_inflight r)[unat i := frame_inflight r ! frame_idx r],
             frame_idx := ((frame_idx r + 1) mod 2 ^ 64) mod unat (img_count r)\<rparr>))"
  using assms
  by (simp add: draw_def draw_submit_def acquiring_def Let_def)

lemma steady:
  "run_continuous example_renderer [acquiring 0, acquiring 1, acquiring 2] = Inr steady_renderer"
  by (simp add: draw_acquiring example_renderer_def steady_renderer_def)

section \<open>Frame slots and image fences\<close>

text \<open>
  Claim C1.  The constructor leaves \<open>frame_idx\<close> at 0.  From a renderer with
  \<open>frame_idx = 0\<close> and \<open>img_count = N \<ge> 1\<close>, after \<open>n\<close> successful calls of
  \<open>draw\<close>, whatever images were acquired, \<open>frame_idx\<close> is \<open>n mod N\<close> and below \<open>N\<close>;
  the next call, call number \<open>n\<close>, starts by waiting on the fence of slot \<open>n mod N\<close> and,
  when it succeeds, leaves \<open>frame_idx\<close> at \<open>(n + 1) mod N\<close>, again below \<open>N\<close>.
\<close>

theorem draw_frame_slot_cycling:
  "(Renderer_new p u = Inr r0 \<longrightarrow> frame_idx r0 = 0)
   \<and> (frame_idx r0 = 0 \<and> 1 \<le> unat (img_count r0) \<and> run_continuous r0 envs = Inr r \<longrightarrow>
        frame_idx r = length envs mod unat (img_count r0)
        \<and> frame_idx r < unat (img_count r0)
        \<and> img_count r = img_count r0
        \<and> (snd (draw r env) = Inr r' \<longrightarrow>
             (\<exists>evs. fst (draw r env)
                = WaitForFences (frame_inflight r0 ! (length envs mod unat (img_count r0))) # evs)
             \<and> frame_idx r' = Suc (length envs) mod unat (img_count r0)
             \<and> frame_idx r' < unat (img_count r0)))"
proof (intro conjI impI)
  assume "Renderer_new p u = Inr r0"
  then show "frame_idx r0 = 0" by (simp add: Renderer_new_Inr)
next
  assume a: "frame_idx r0 = 0 \<and> 1 \<le> unat (img_count r0) \<and> run_continuous r0 envs = Inr r"
  let ?n = "unat (img_count r0)"
  from a have pos: "0 < ?n" and run: "run_continuous r0 envs = Inr r" by simp_all
  from a have start: "frame_idx r0 < ?n" by simp
  from run_continuous_frame_idx [OF run start] a
  show fi: "frame_idx r = length envs mod ?n" by simp
  from pos show lt: "frame_idx r < ?n" by (simp add: fi)
  from run_continuous_preserves [OF run]
  show same: "img_count r = img_count r0" by simp
  assume d: "snd (draw r env) = Inr r'"
  from draw_Inr [OF d] have "frame_idx r < length (frame_inflight r)" by blast
  from draw_first_event [OF this, of env] run_continuous_preserves [OF run]
  show "\<exists>evs. fst (draw r env) = WaitForFences (frame_inflight r0 ! (length envs mod ?n)) # evs"
    by (simp add: fi)
  have bound: "?n < 2 ^ 32"
    using unsigned_less [of "img_count r0", where ?'a = nat] by simp
  from draw_preserves(11) [OF d] next_slot [OF lt bound]
  show "frame_idx r' = Suc (length envs) mod ?n"
    by (simp add: same fi mod_Suc_eq)
  with pos show "frame_idx r' < ?n" by simp
qed

theorem draw_frame_slot_cycling_witness:
  "Renderer_new example_platform unconstructed = Inr example_renderer
   \<and> frame_idx example_renderer = 0 \<and> 1 \<le> unat (img_count example_renderer)
   \<and> run_continuous example_renderer [acquiring 2, acquiring 0, acquiring 1, acquiring 1]
     = Inr (example_renderer\<lparr>frame_idx := 1, image_inflight := [0x602, 0x601, 0x601]\<rparr>)
   \<and> length [acquiring 2, acquiring 0, acquiring 1, acquiring 1] mod unat (img_count example_renderer)
     = 1
   \<and> snd (draw (example_renderer\<lparr>frame_idx := 1, image_inflight := [0x602, 0x601, 0x601]\<rparr>)
             (acquiring 2))
     = Inr (example_renderer\<lparr>frame_idx := 2, image_inflight := [0x602, 0x601, 0x602]\<rparr>)
   \<and> hd (fst (draw (example_renderer\<lparr>frame_idx := 1, image_inflight := [0x602, 0x601, 0x601]\<rparr>)
                 (acquiring 2)))
     = WaitForFences 0x602"
proof -
  have run: "run_continuous example_renderer [acquiring 2, acquiring 0, acquiring 1, acquiring 1]
     = Inr (example_renderer\<lparr>frame_idx := 1, image_inflight := [0x602, 0x601, 0x601]\<rparr>)"
    by (simp add: draw_acquiring example_renderer_def)
  have next_draw:
    "snd (draw (example_renderer\<lparr>frame_idx := 1, image_inflight := [0x602, 0x601, 0x601]\<rparr>)
             (acquiring 2))
     = Inr (example_renderer\<lparr>frame_idx := 2, image_inflight := [0x602, 0x601, 0x602]\<rparr>)"
    by (simp add: draw_acquiring example_renderer_def)
  have start: "frame_idx example_renderer = 0" "1 \<le> unat (img_count example_renderer)"
    "frame_inflight example_renderer ! 1 = 0x602"
    by (simp_all add: example_renderer_def)
  from draw_frame_slot_cycling
         [of example_platform unconstructed example_renderer
             "[acquiring 2, acquiring 0, acquiring 1, acquiring 1]"
             "example_renderer\<lparr>frame_idx := 1, image_inflight := [0x602, 0x601, 0x601]\<rparr>"
             "acquiring 2"
             "example_renderer\<lparr>frame_idx := 2, image_inflight := [0x602, 0x601, 0x602]\<rparr>"]
       example_construction run next_draw start
  show ?thesis
    by (auto simp: example_renderer_def)
qed

lemma draw_fence_waits:
  assumes "frame_idx r < length (frame_inflight r)" "frame_idx r < length (image_available r)"
    "wait_frame env = Returns eSuccess" "acquire env = Returns img"
    "unat img < length (image_inflight r)"
  shows "fence_waits (fst (draw r env))
           = (if image_inflight r ! unat img \<noteq> null_handle then 2 else 1)"
    and "image_inflight r ! unat img \<noteq> null_handle \<Longrightarrow>
         \<exists>evs. fst (draw r env)
           = [WaitForFences (frame_inflight r ! frame_idx r),
              AcquireNextImageKHR (image_available r ! frame_idx r),
              WaitForFences (image_inflight r ! unat img)] @ evs"
  using assms draw_submit_events [of "r\<lparr>image_inflight :=
      (image_inflight r)[unat img := frame_inflight r ! frame_idx r]\<rparr>" env img]
  by (auto simp: draw_def Let_def fence_waits_def split: prod.splits)

text \<open>
  Claim C2, amended.  In a \<open>draw\<close> whose first wait has succeeded and that has acquired
  an image index within \<open>image_inflight\<close>, the second fence wait is performed if and
  only if the entry of that image is not the null handle, whichever slot's fence it is;
  it is then the third driver call, on that entry.  With a null entry the call waits
  once.
\<close>

theorem draw_second_wait_iff_nonnull:
  "frame_idx r < length (frame_inflight r) \<and> frame_idx r < length (image_available r)
   \<and> wait_frame env = Returns eSuccess \<and> acquire env = Returns img
   \<and> unat img < length (image_inflight r) \<longrightarrow>
     ((fence_waits (fst (draw r env)) = 2) = (image_inflight r ! unat img \<noteq> null_handle))
     \<and> (image_inflight r ! unat img = null_handle \<longrightarrow> fence_waits (fst (draw r env)) = 1)
     \<and> (image_inflight r ! unat img \<noteq> null_handle \<longrightarrow>
          (\<exists>evs. fst (draw r env)
             = [WaitForFences (frame_inflight r ! frame_idx r),
                AcquireNextImageKHR (image_available r ! frame_idx r),
                WaitForFences (image_inflight r ! unat img)] @ evs))"
  using draw_fence_waits [of r env img] by auto

text \<open>
  Claim C2, as stated, fails: the source waits whenever the entry is not null and never
  compares it with the fence of the current slot.  After three calls that acquired
  images 0, 1 and 2 the entry of image 0 is the fence of slot 0; the fourth call runs
  on slot 0, acquires image 0 and waits on that fence a second time.
\<close>

theorem draw_second_wait_own_fence_counterexample:
  "run_continuous example_renderer [acquiring 0, acquiring 1, acquiring 2] = Inr steady_renderer
   \<and> acquire (acquiring 0) = Returns 0
   \<and> image_inflight steady_renderer ! unat (0 :: u32)
     = frame_inflight steady_renderer ! frame_idx steady_renderer
   \<and> image_inflight steady_renderer ! unat (0 :: u32) \<noteq> null_handle
   \<and> fst (draw steady_renderer (acquiring 0))
     = [WaitForFences 0x601, AcquireNextImageKHR 0x501, WaitForFences 0x601, ResetFences 0x601,
        Submit 0x501 0x401 0x502 0x601, PresentKHR 0x502 0]
   \<and> fence_waits (fst (draw steady_renderer (acquiring 0))) = 2"
proof -
  have evs: "fst (draw steady_renderer (acquiring 0))
     = [WaitForFences 0x601, AcquireNextImageKHR 0x501, WaitForFences 0x601, ResetFences 0x601,
        Submit 0x501 0x401 0x502 0x601, PresentKHR 0x502 0]"
    by (simp add: draw_acquiring example_renderer_def steady_renderer_def null_handle_def)
  have waits: "fence_waits (fst (draw steady_renderer (acquiring 0))) = 2"
    unfolding evs by (simp add: fence_waits_def)
  have own: "image_inflight steady_renderer ! unat (0 :: u32)
     = frame_inflight steady_renderer ! frame_idx steady_renderer"
    "image_inflight steady_renderer ! unat (0 :: u32) \<noteq> null_handle"
    "acquire (acquiring 0) = Returns 0"
    by (simp_all add: steady_renderer_def example_renderer_def null_handle_def acquiring_def)
  from steady evs waits own show ?thesis by simp
qed

theorem draw_second_wait_iff_nonnull_witness:
  "frame_idx steady_renderer < length (frame_inflight steady_renderer)
   \<and> frame_idx steady_renderer < length (image_available steady_renderer)
   \<and> wait_frame (acquiring 0) = Returns eSuccess \<and> acquire (acquiring 0) = Returns 0
   \<and> unat (0 :: u32) < length (image_inflight steady_renderer)
   \<and> image_inflight steady_renderer ! unat (0 :: u32) \<noteq> null_handle
   \<and> fence_waits (fst (draw steady_renderer (acquiring 0))) = 2
   \<and> frame_idx example_renderer < length (frame_inflight example_renderer)
   \<and> frame_idx example_renderer < length (image_available example_renderer)
   \<and> unat (0 :: u32) < length (image_inflight example_renderer)
   \<and> image_inflight example_renderer ! unat (0 :: u32) = null_handle
   \<and> fence_waits (fst (draw example_renderer (acquiring 0))) = 1"
  using draw_second_wait_iff_nonnull [of steady_renderer "acquiring 0" 0]
        draw_second_wait_iff_nonnull [of example_renderer "acquiring 0" 0]
  by (simp add: steady_renderer_def example_renderer_def acquiring_def null_handle_def)

section \<open>Structural counts\<close>

lemma unat_of_nat_u32: "n < 2 ^ 32 \<Longrightarrow> unat (of_nat n :: u32) = n"
  by (simp add: unat_of_nat)

lemma Renderer_new_counts:
  assumes "Renderer_new p u = Inr r" "length (swapchain_images p) < 2 ^ 32"
  shows "length (images r) = length (swapchain_images p)"
    "length (image_views r) = length (swapchain_images p)"
    "length (framebuffers r) = length (swapchain_images p)"
    "length (cmd_bufs r) = length (swapchain_images p)"
    "length (recorded r) = length (swapchain_images p)"
    "length (image_available r) = unat (img_count r)"
    "length (render_finished r) = unat (img_count r)"
    "length (frame_inflight r) = unat (img_count r)"
    "length (image_inflight r) = unat (img_count r)"
proof -
  note c = Renderer_new_Inr [OF assms(1)]
  from c show i: "length (images r) = length (swapchain_images p)" by simp
  from c i show v: "length (image_views r) = length (swapchain_images p)"
    by (metis length_map)
  from c v show f: "length (framebuffers r) = length (swapchain_images p)"
    by (metis length_map)
  from c have "length (cmd_bufs r) = unat (of_nat (length (framebuffers r)) :: u32)"
    by (metis length_map length_upt minus_nat.diff_0)
  with f assms(2) show b: "length (cmd_bufs r) = length (swapchain_images p)"
    by (simp add: unat_of_nat_u32)
  from c b show "length (recorded r) = length (swapchain_images p)"
    by (metis length_map length_upt minus_nat.diff_0)
  from c show "length (image_available r) = unat (img_count r)"
    by (metis length_map length_upt minus_nat.diff_0)
  from c show "length (render_finished r) = unat (img_count r)"
    by (metis length_map length_upt minus_nat.diff_0)
  from c show "length (frame_inflight r) = unat (img_count r)"
    by (metis length_map length_upt minus_nat.diff_0)
  from c show "length (image_inflight r) = unat (img_count r)"
    by (metis length_replicate)
qed

text \<open>
  Claim C9.  After a successful construction on a swapchain with fewer than \<open>2^32\<close>
  images (the driver reports their number in 32 bits), there are as many image views as
  images, as many framebuffers as image views and as many command buffers as
  framebuffers; the buffer at position \<open>i\<close> holds exactly the one recording made for
  framebuffer \<open>i\<close>; and no sequence of successful \<open>draw\<close> calls changes any of these
  vectors.  The allocation names no level, so the buffers have the binding's default
  level, primary.
\<close>

theorem one_framebuffer_view_and_command_buffer_per_image:
  "Renderer_new p u = Inr r \<and> length (swapchain_images p) < 2 ^ 32
   \<and> run_continuous r envs = Inr r' \<longrightarrow>
     images r = swapchain_images p
     \<and> length (image_views r) = length (images r)
     \<and> length (framebuffers r) = length (image_views r)
     \<and> length (cmd_bufs r) = length (framebuffers r)
     \<and> length (recorded r) = length (framebuffers r)
     \<and> (\<forall>i. i < length (framebuffers r) \<longrightarrow>
           recorded r ! i
             = [Begin, BeginRenderPass (framebuffers r ! i) (extent r), BindPipeline,
                Draw 3 1 0 0, EndRenderPass, End])
     \<and> images r' = images r \<and> image_views r' = image_views r
     \<and> framebuffers r' = framebuffers r \<and> cmd_bufs r' = cmd_bufs r
     \<and> recorded r' = recorded r"
proof (intro impI)
  assume a: "Renderer_new p u = Inr r \<and> length (swapchain_images p) < 2 ^ 32
   \<and> run_continuous r envs = Inr r'"
  then have new: "Renderer_new p u = Inr r" and small: "length (swapchain_images p) < 2 ^ 32"
    and run: "run_continuous r envs = Inr r'" by simp_all
  note n = Renderer_new_counts [OF new small]
  from Renderer_new_Inr [OF new] have rec: "recorded r = map (record_one r) [0..<length (cmd_bufs r)]"
    and im: "images r = swapchain_images p" by simp_all
  have "recorded r ! i
          = [Begin, BeginRenderPass (framebuffers r ! i) (extent r), BindPipeline,
             Draw 3 1 0 0, EndRenderPass, End]"
    if "i < length (framebuffers r)" for i
  proof -
    from that n have "i < length (cmd_bufs r)" by simp
    then have "recorded r ! i = record_one r i"
      by (subst rec) simp
    then show ?thesis by (simp add: record_one_def)
  qed
  with n im run_continuous_preserves [OF run]
  show "images r = swapchain_images p
     \<and> length (image_views r) = length (images r)
     \<and> length (framebuffers r) = length (image_views r)
     \<and> length (cmd_bufs r) = length (framebuffers r)
     \<and> length (recorded r) = length (framebuffers r)
     \<and> (\<forall>i. i < length (framebuffers r) \<longrightarrow>
           recorded r ! i
             = [Begin, BeginRenderPass (framebuffers r ! i) (extent r), BindPipeline,
                Draw 3 1 0 0, EndRenderPass, End])
     \<and> images r' = images r \<and> image_views r' = image_views r
     \<and> framebuffers r' = framebuffers r \<and> cmd_bufs r' = cmd_bufs r
     \<and> recorded r' = recorded r"
    by simp
qed

theorem one_framebuffer_view_and_command_buffer_per_image_witness:
  "Renderer_new example_platform unconstructed = Inr example_renderer
   \<and> length (swapchain_images example_platform) < 2 ^ 32
   \<and> run_continuous example_renderer [acquiring 0, acquiring 1, acquiring 2] = Inr steady_renderer
   \<and> length (images example_renderer) = 4
   \<and> length (image_views example_renderer) = 4
   \<and> length (framebuffers example_renderer) = 4
   \<and> length (cmd_bufs example_renderer) = 4
   \<and> recorded example_renderer ! 3
     = [Begin, BeginRenderPass 0x304 \<lparr>width = 500, height = 500\<rparr>, BindPipeline, Draw 3 1 0 0,
        EndRenderPass, End]
   \<and> framebuffers steady_renderer = framebuffers example_renderer
   \<and> cmd_bufs steady_renderer = cmd_bufs example_renderer"
proof -
  have small: "length (swapchain_images example_platform) < 2 ^ 32"
    by (simp add: example_platform_def)
  have hyp: "Renderer_new example_platform unconstructed = Inr example_renderer
     \<and> length (swapchain_images example_platform) < 2 ^ 32
     \<and> run_continuous example_renderer [acquiring 0, acquiring 1, acquiring 2]
       = Inr steady_renderer"
    using example_construction small steady by simp
  note counts = one_framebuffer_view_and_command_buffer_per_image
                  [of example_platform unconstructed example_renderer
                      "[acquiring 0, acquiring 1, acquiring 2]" steady_renderer, THEN mp, OF hyp]
  have four: "length (images example_renderer) = 4" "framebuffers example_renderer ! 3 = 0x304"
    "extent example_renderer = \<lparr>width = 500, height = 500\<rparr>"
    "(3 :: nat) < length (framebuffers example_renderer)"
    by (simp_all add: example_renderer_def)
  from counts four(4) have "recorded example_renderer ! 3
     = [Begin, BeginRenderPass (framebuffers example_renderer ! 3) (extent example_renderer),
        BindPipeline, Draw 3 1 0 0, EndRenderPass, End]"
    by blast
  with hyp counts four show ?thesis
    by simp
qed

section \<open>Bounds of the acquired image index\<close>

lemma draw_in_bounds:
  assumes "frame_idx r < length (frame_inflight r)" "frame_idx r < length (image_available r)"
    "frame_idx r < length (render_finished r)" "unat img < length (image_inflight r)"
    "unat img < length (cmd_bufs r)" "acquire env = Returns img"
  shows "snd (draw r env) \<noteq> Inl (out_of_range v)"
  using assms
  by (auto simp: draw_def draw_submit_def Let_def split: call.splits prod.splits if_splits)

lemma draw_image_out_of_range:
  assumes "frame_idx r < length (frame_inflight r)" "frame_idx r < length (image_available r)"
    "wait_frame env = Returns eSuccess" "acquire env = Returns img"
    "length (image_inflight r) \<le> unat img"
  shows "snd (draw r env) = Inl (out_of_range ''image_inflight'')"
  using assms by (simp add: draw_def Let_def)

text \<open>
  Claim C10.  In every renderer reached from a successful construction with a non-zero
  \<open>img_count\<close>, \<open>image_inflight\<close> has \<open>img_count\<close> entries while \<open>cmd_bufs\<close> and
  \<open>framebuffers\<close> have one entry per swapchain image.  A \<open>draw\<close> that acquires an index
  at or beyond \<open>img_count\<close> reads \<open>image_inflight\<close> out of bounds; one that acquires an
  index below \<open>img_count\<close> and below the number of swapchain images indexes no vector
  out of bounds.
\<close>

theorem draw_image_index_bounds:
  "Renderer_new p u = Inr r0 \<and> length (swapchain_images p) < 2 ^ 32
   \<and> run_continuous r0 envs = Inr r \<and> img_count r0 \<noteq> 0
   \<and> wait_frame env = Returns eSuccess \<and> acquire env = Returns img \<longrightarrow>
     length (image_inflight r) = unat (img_count r)
     \<and> length (cmd_bufs r) = length (swapchain_images p)
     \<and> length (framebuffers r) = length (swapchain_images p)
     \<and> (unat (img_count r) \<le> unat img \<longrightarrow>
          snd (draw r env) = Inl (out_of_range ''image_inflight''))
     \<and> (unat img < unat (img_count r) \<and> unat img < length (swapchain_images p) \<longrightarrow>
          (\<forall>v. snd (draw r env) \<noteq> Inl (out_of_range v)))"
proof (intro impI)
  assume a: "Renderer_new p u = Inr r0 \<and> length (swapchain_images p) < 2 ^ 32
   \<and> run_continuous r0 envs = Inr r \<and> img_count r0 \<noteq> 0
   \<and> wait_frame env = Returns eSuccess \<and> acquire env = Returns img"
  then have new: "Renderer_new p u = Inr r0" and small: "length (swapchain_images p) < 2 ^ 32"
    and run: "run_continuous r0 envs = Inr r" and env: "wait_frame env = Returns eSuccess"
    "acquire env = Returns img" by simp_all
  note n = Renderer_new_counts [OF new small]
  note same = run_continuous_preserves [OF run]
  from a have pos: "0 < unat (img_count r0)"
    by (simp add: unat_gt_0)
  from Renderer_new_Inr [OF new] pos have "frame_idx r0 < unat (img_count r0)" by simp
  from run_continuous_frame_idx [OF run this] pos
  have slot: "frame_idx r < unat (img_count r0)" by simp
  have len: "length (image_inflight r) = unat (img_count r0)"
    "length (frame_inflight r) = unat (img_count r0)"
    "length (image_available r) = unat (img_count r0)"
    "length (render_finished r) = unat (img_count r0)"
    "length (cmd_bufs r) = length (swapchain_images p)"
    "length (framebuffers r) = length (swapchain_images p)"
    "img_count r = img_count r0"
    using n same by simp_all
  have beyond: "snd (draw r env) = Inl (out_of_range ''image_inflight'')"
    if "unat (img_count r) \<le> unat img"
    using that slot env by (intro draw_image_out_of_range) (simp_all add: len)
  have within: "snd (draw r env) \<noteq> Inl (out_of_range v)"
    if "unat img < unat (img_count r) \<and> unat img < length (swapchain_images p)" for v
    using that slot env by (intro draw_in_bounds) (simp_all add: len)
  from beyond within len
  show "length (image_inflight r) = unat (img_count r)
     \<and> length (cmd_bufs r) = length (swapchain_images p)
     \<and> length (framebuffers r) = length (swapchain_images p)
     \<and> (unat (img_count r) \<le> unat img \<longrightarrow>
          snd (draw r env) = Inl (out_of_range ''image_inflight''))
     \<and> (unat img < unat (img_count r) \<and> unat img < length (swapchain_images p) \<longrightarrow>
          (\<forall>v. snd (draw r env) \<noteq> Inl (out_of_range v)))"
    by simp
qed

theorem draw_image_index_bounds_witness:
  "Renderer_new example_platform unconstructed = Inr example_renderer
   \<and> length (swapchain_images example_platform) < 2 ^ 32
   \<and> run_continuous example_renderer [acquiring 0, acquiring 1, acquiring 2] = Inr steady_renderer
   \<and> img_count example_renderer \<noteq> 0
   \<and> wait_frame (acquiring 3) = Returns eSuccess \<and> acquire (acquiring 3) = Returns 3
   \<and> length (swapchain_images example_platform) = 4
   \<and> length (cmd_bufs steady_renderer) = 4
   \<and> length (image_inflight steady_renderer) = 3
   \<and> unat (img_count steady_renderer) \<le> unat (3 :: u32)
   \<and> snd (draw steady_renderer (acquiring 3)) = Inl (out_of_range ''image_inflight'')
   \<and> unat (2 :: u32) < unat (img_count steady_renderer)
   \<and> snd (draw steady_renderer (acquiring 2))
     = Inr (steady_renderer\<lparr>frame_idx := 1, image_inflight := [0x601, 0x602, 0x601]\<rparr>)"
proof -
  have small: "length (swapchain_images example_platform) < 2 ^ 32"
    "length (swapchain_images example_platform) = 4"
    by (simp_all add: example_platform_def)
  have env: "wait_frame (acquiring 3) = Returns eSuccess" "acquire (acquiring 3) = Returns 3"
    by (simp_all add: acquiring_def)
  have st: "img_count example_renderer \<noteq> 0" "unat (img_count steady_renderer) \<le> unat (3 :: u32)"
    "unat (2 :: u32) < unat (img_count steady_renderer)"
    by (simp_all add: example_renderer_def steady_renderer_def)
  have ok: "snd (draw steady_renderer (acquiring 2))
     = Inr (steady_renderer\<lparr>frame_idx := 1, image_inflight := [0x601, 0x602, 0x601]\<rparr>)"
    by (simp add: draw_acquiring example_renderer_def steady_renderer_def)
  from draw_image_index_bounds
         [of example_platform unconstructed example_renderer
             "[acquiring 0, acquiring 1, acquiring 2]" steady_renderer "acquiring 3" 3]
       example_construction small steady env st ok
  show ?thesis
    by simp
qed

end
